theory Spec2Isabelle
  imports Main "HOL-Library.Product_Lexorder" "HOL-Library.AList"
begin

section \<open>Calendar dates\<close>

text \<open>
  The script works on values of Python's \<^verbatim>\<open>datetime.date\<close>: a year, a month and a
  day of the proleptic Gregorian calendar between 0001-01-01 and 9999-12-31. A date is
  modelled as the triple of its fields. Python compares dates chronologically, which on
  the triples is the lexicographic order; that is the order \<open>\<le>\<close> on the type below.
  A Python \<^verbatim>\<open>date\<close> object is always a valid calendar date (the constructor raises
  otherwise); on the triples this is the predicate \<open>valid_date\<close>.
\<close>

type_synonym date = "nat \<times> nat \<times> nat"

definition MINYEAR :: nat where
  "MINYEAR = 1"

definition MAXYEAR :: nat where
  "MAXYEAR = 9999"

definition is_leap :: "nat \<Rightarrow> bool" where
  "is_leap y \<longleftrightarrow> y mod 4 = 0 \<and> (y mod 100 \<noteq> 0 \<or> y mod 400 = 0)"

definition days_in_month :: "nat \<Rightarrow> nat \<Rightarrow> nat" where
  "days_in_month y m =
     (if m = 2 then (if is_leap y then 29 else 28)
      else if m = 4 \<or> m = 6 \<or> m = 9 \<or> m = 11 then 30
      else if 1 \<le> m \<and> m \<le> 12 then 31
      else 0)"

fun valid_date :: "date \<Rightarrow> bool" where
  "valid_date (y, m, d) \<longleftrightarrow>
     MINYEAR \<le> y \<and> y \<le> MAXYEAR \<and> 1 \<le> m \<and> m \<le> 12 \<and> 1 \<le> d \<and> d \<le> days_in_month y m"

text \<open>
  Exceptions. The constructors name the Python exception classes the script itself can
  meet; \<open>Raised cls msg\<close> is an instance of any other subclass of \<^verbatim>\<open>Exception\<close>, as
  raised by a collaborator (the retrieval client, \<^verbatim>\<open>tempfile\<close>, \<^verbatim>\<open>shutil\<close>).
  Interrupts that do not derive from \<^verbatim>\<open>Exception\<close> (\<^verbatim>\<open>KeyboardInterrupt\<close>,
  \<^verbatim>\<open>SystemExit\<close>) are not failures of a collaborator and are not modelled.
\<close>

datatype exn =
    AssertionError string
  | OverflowError
  | TypeError
  | ValueError string
  | Raised string string

text \<open>
  \<^verbatim>\<open>d + timedelta(days=1)\<close>: the next calendar day; Python raises
  \<^verbatim>\<open>OverflowError\<close> when the result would lie after 9999-12-31.
\<close>

fun add_one_day :: "date \<Rightarrow> exn + date" where
  "add_one_day (y, m, d) =
     (if d < days_in_month y m then Inr (y, m, d + 1)
      else if m < 12 then Inr (y, m + 1, 1)
      else if y < MAXYEAR then Inr (y + 1, 1, 1)
      else Inl OverflowError)"

text \<open>
  \<^verbatim>\<open>d - timedelta(days=1)\<close>: the previous calendar day, with
  \<^verbatim>\<open>OverflowError\<close> before 0001-01-01.
\<close>

fun sub_one_day :: "date \<Rightarrow> exn + date" where
  "sub_one_day (y, m, d) =
     (if 1 < d then Inr (y, m, d - 1)
      else if 1 < m then Inr (y, m - 1, days_in_month y (m - 1))
      else if MINYEAR < y then Inr (y - 1, 12, 31)
      else Inl OverflowError)"

text \<open>\<^verbatim>\<open>d - timedelta(days=n)\<close>.\<close>

fun sub_days :: "date \<Rightarrow> nat \<Rightarrow> exn + date" where
  "sub_days d 0 = Inr d"
| "sub_days d (Suc n) =
     (case sub_one_day d of Inl e \<Rightarrow> Inl e | Inr p \<Rightarrow> sub_days p n)"

text \<open>The same for addition; used to say what "n days earlier" means.\<close>

fun add_days :: "date \<Rightarrow> nat \<Rightarrow> exn + date" where
  "add_days d 0 = Inr d"
| "add_days d (Suc n) =
     (case add_one_day d of Inl e \<Rightarrow> Inl e | Inr p \<Rightarrow> add_days p n)"

text \<open>
  A quantity that drops with every \<open>add_one_day\<close>: it bounds the number of iterations of
  the loop over dates.
\<close>

fun days_left :: "date \<Rightarrow> nat" where
  "days_left (y, m, d) = (MAXYEAR - y) * 384 + (12 - m) * 32 + (31 - d)"

lemma days_in_month_le_31: "days_in_month y m \<le> 31"
  by (simp add: days_in_month_def)

lemma add_one_day_days_left:
  assumes "add_one_day c = Inr n"
  shows "days_left n < days_left c"
proof -
  obtain y m d where c: "c = (y, m, d)" by (cases c)
  have le: "days_in_month y m \<le> 31" by (rule days_in_month_le_31)
  show ?thesis
    using assms le unfolding c
    by (auto simp: MAXYEAR_def split: if_splits)
qed

text \<open>
  The dates the loop \<^verbatim>\<open>while current_date <= end_date: ...; current_date += timedelta(days=1)\<close>
  runs its body on, in the order of the iterations. When the increment overflows the
  exception ends the loop after the body has run for the last date.
\<close>

function date_range :: "date \<Rightarrow> date \<Rightarrow> date list" where
  "date_range cur end_date =
     (if cur \<le> end_date
      then cur # (case add_one_day cur of Inl e \<Rightarrow> [] | Inr n \<Rightarrow> date_range n end_date)
      else [])"
  by pat_completeness auto
termination
  by (relation "measure (\<lambda>(cur, end_date). days_left cur)")
     (auto simp: add_one_day_days_left)

declare date_range.simps [simp del]

section \<open>Formatting and parsing dates\<close>

text \<open>
  \<^verbatim>\<open>d.strftime('%Y-%m-%d')\<close>. Python hands the format to the \<^verbatim>\<open>strftime\<close> of the C
  library; on Linux (glibc) \<^verbatim>\<open>%Y\<close> is the year as a decimal number without padding,
  \<^verbatim>\<open>%m\<close> and \<^verbatim>\<open>%d\<close> are the month and the day with two digits. A year below 1000
  is therefore written with fewer than four digits: \<^verbatim>\<open>date(999, 1, 1)\<close> gives
  \<^verbatim>\<open>999-01-01\<close>. The years of dates go up to 9999.
\<close>

definition digit_char :: "nat \<Rightarrow> char" where
  "digit_char n = ''0123456789'' ! (n mod 10)"

definition year_digits :: "nat \<Rightarrow> string" where
  "year_digits y =
     (if y < 10 then [digit_char y]
      else if y < 100 then [digit_char (y div 10), digit_char y]
      else if y < 1000 then [digit_char (y div 100), digit_char (y div 10), digit_char y]
      else [digit_char (y div 1000), digit_char (y div 100), digit_char (y div 10),
            digit_char y])"

fun strftime_ymd :: "date \<Rightarrow> string" where
  "strftime_ymd (y, m, d) =
     year_digits y @
     [CHR ''-'', digit_char (m div 10), digit_char m,
      CHR ''-'', digit_char (d div 10), digit_char d]"

text \<open>
  \<^verbatim>\<open>datetime.strptime(s, "%Y-%m-%d").date()\<close>. The standard library turns the format
  into the regular expression
  \<^verbatim>\<open>(?P<Y>\d\d\d\d)-(?P<m>1[0-2]|0[1-9]|[1-9])-(?P<d>3[01]|[12]\d|0[1-9]|[1-9]| [1-9])\<close>,
  matches it at the start of the string and raises \<^verbatim>\<open>ValueError\<close> when it does not
  match or when text remains after the match; the date constructor then raises
  \<^verbatim>\<open>ValueError\<close> for a year 0 or a day the month does not have. \<open>None\<close> stands for
  the \<^verbatim>\<open>ValueError\<close>, which is the only thing the caller does with it. File names
  are taken to be ASCII.
\<close>

definition digit_val :: "char \<Rightarrow> nat option" where
  "digit_val c =
     map_of [(CHR ''0'', 0), (CHR ''1'', 1), (CHR ''2'', 2), (CHR ''3'', 3), (CHR ''4'', 4),
             (CHR ''5'', 5), (CHR ''6'', 6), (CHR ''7'', 7), (CHR ''8'', 8), (CHR ''9'', 9)] c"

fun parse_year :: "string \<Rightarrow> nat option" where
  "parse_year [a, b, c, d] =
     (case (digit_val a, digit_val b, digit_val c, digit_val d) of
        (Some p, Some q, Some r, Some t) \<Rightarrow> Some (1000 * p + 100 * q + 10 * r + t)
      | _ \<Rightarrow> None)"
| "parse_year _ = None"

fun parse_month :: "string \<Rightarrow> nat option" where
  "parse_month [a] =
     (case digit_val a of
        Some p \<Rightarrow> if 1 \<le> p then Some p else None
      | None \<Rightarrow> None)"
| "parse_month [a, b] =
     (case (digit_val a, digit_val b) of
        (Some p, Some q) \<Rightarrow>
          if (p = 1 \<and> q \<le> 2) \<or> (p = 0 \<and> 1 \<le> q) then Some (10 * p + q) else None
      | _ \<Rightarrow> None)"
| "parse_month _ = None"

fun parse_day :: "string \<Rightarrow> nat option" where
  "parse_day [a] =
     (case digit_val a of
        Some p \<Rightarrow> if 1 \<le> p then Some p else None
      | None \<Rightarrow> None)"
| "parse_day [a, b] =
     (if a = CHR '' ''
      then (case digit_val b of
              Some q \<Rightarrow> if 1 \<le> q then Some q else None
            | None \<Rightarrow> None)
      else (case (digit_val a, digit_val b) of
              (Some p, Some q) \<Rightarrow>
                if (p = 3 \<and> q \<le> 1) \<or> p = 1 \<or> p = 2 \<or> (p = 0 \<and> 1 \<le> q)
                then Some (10 * p + q) else None
            | _ \<Rightarrow> None))"
| "parse_day _ = None"

definition strptime_ymd :: "string \<Rightarrow> date option" where
  "strptime_ymd s =
     (case s of
        a # b # c # d # dash # rest \<Rightarrow>
          if dash \<noteq> CHR ''-'' then None
          else (case dropWhile (\<lambda>x. x \<noteq> CHR ''-'') rest of
                  [] \<Rightarrow> None
                | _ # day_text \<Rightarrow>
                    (case (parse_year [a, b, c, d],
                           parse_month (takeWhile (\<lambda>x. x \<noteq> CHR ''-'') rest),
                           parse_day day_text) of
                       (Some y, Some m, Some dd) \<Rightarrow>
                         if valid_date (y, m, dd) then Some (y, m, dd) else None
                     | _ \<Rightarrow> None))
      | _ \<Rightarrow> None)"

text \<open>\<^verbatim>\<open>fname.split('.')[0]\<close>: the text before the first dot.\<close>

definition split_dot_first :: "string \<Rightarrow> string" where
  "split_dot_first fname = takeWhile (\<lambda>x. x \<noteq> CHR ''.'') fname"

section \<open>Download configuration\<close>

text \<open>
  A configuration is a Python \<^verbatim>\<open>dict\<close> from string keys to values. The values a
  configuration holds are lists of strings and numbers; \<open>pyval\<close> has these and the other
  plain values a caller may put there, with Python's truth value for each.
\<close>

datatype pyval = PNone | PBool bool | PInt int | PStr string | PList "pyval list"

fun truthy :: "pyval \<Rightarrow> bool" where
  "truthy PNone = False"
| "truthy (PBool b) = b"
| "truthy (PInt n) = (n \<noteq> 0)"
| "truthy (PStr s) = (s \<noteq> [])"
| "truthy (PList xs) = (xs \<noteq> [])"

fun is_list :: "pyval \<Rightarrow> bool" where
  "is_list (PList xs) = True"
| "is_list _ = False"

text \<open>\<^verbatim>\<open>len\<close>, used by the script only behind an \<^verbatim>\<open>isinstance(_, list)\<close> test.\<close>

fun py_len :: "pyval \<Rightarrow> nat" where
  "py_len (PList xs) = length xs"
| "py_len (PStr s) = length s"
| "py_len _ = 0"

type_synonym config = "string \<rightharpoonup> pyval"

definition global_area :: pyval where
  "global_area = PList [PInt 90, PInt (- 180), PInt (- 90), PInt 180]"

definition get_default_download_config :: config where
  "get_default_download_config =
     [''variable'' \<mapsto> PList [PStr ''relative_humidity'', PStr ''specific_humidity''],
      ''pressure_level'' \<mapsto> PList [PStr ''300'', PStr ''500'', PStr ''800'', PStr ''900'', PStr ''975''],
      ''time'' \<mapsto> PList [PStr ''00:00'', PStr ''06:00'', PStr ''12:00'', PStr ''18:00''],
      ''area'' \<mapsto> global_area]"

definition required_keys :: "string list" where
  "required_keys = [''variable'', ''pressure_level'', ''time'']"

text \<open>
  \<^verbatim>\<open>if not isinstance(config[k], list) or len(config[k]) == 0: raise ValueError(...)\<close>.
  The subscript raises \<^verbatim>\<open>KeyError\<close> on a missing key.
\<close>

definition check_nonempty_list :: "config \<Rightarrow> string \<Rightarrow> exn option" where
  "check_nonempty_list config k =
     (case config k of
        None \<Rightarrow> Some (Raised ''KeyError'' k)
      | Some v \<Rightarrow>
          if \<not> is_list v \<or> py_len v = 0
          then Some (ValueError (k @ '' must be a non-empty list''))
          else None)"

text \<open>\<^verbatim>\<open>config.get("area", False)\<close>.\<close>

definition get_area :: "config \<Rightarrow> pyval" where
  "get_area config = (case config ''area'' of None \<Rightarrow> PBool False | Some v \<Rightarrow> v)"

text \<open>
  \<^verbatim>\<open>_validate_download_config\<close> works on the dictionary object it is given: it may
  assign \<^verbatim>\<open>config["area"]\<close>, and it returns that same object or raises. The model
  returns the contents of the dictionary when the function is left, together with the
  exception raised, if any.
\<close>

definition validate_download_config :: "config \<Rightarrow> config \<times> exn option" where
  "validate_download_config config =
     (if \<not> (\<forall>k \<in> set required_keys. config k \<noteq> None)
      then (config, Some (ValueError ''Missing required config keys''))
      else (case check_nonempty_list config ''variable'' of
        Some e \<Rightarrow> (config, Some e)
      | None \<Rightarrow>
      (case check_nonempty_list config ''pressure_level'' of
        Some e \<Rightarrow> (config, Some e)
      | None \<Rightarrow>
      (case check_nonempty_list config ''time'' of
        Some e \<Rightarrow> (config, Some e)
      | None \<Rightarrow>
        (let config1 = (if \<not> truthy (get_area config)
                        then config(''area'' \<mapsto> global_area) else config)
         in (case config1 ''area'' of
               None \<Rightarrow> (config1, Some (Raised ''KeyError'' ''area''))
             | Some v \<Rightarrow>
                 if \<not> is_list v \<or> py_len v \<noteq> 4
                 then (config1, Some (ValueError
                        ''area must be a list of 4 values [North, West, South, East]''))
                 else (config1, None)))))))"

section \<open>The output directory, the collaborators and the state\<close>

text \<open>
  The output directory \<^verbatim>\<open>data_dir\<close> is a list of named entries: regular files with
  their size in bytes, and subdirectories with the files they hold.
\<close>

datatype entry = File nat | Dir "(string \<times> nat) list"

type_synonym directory = "(string \<times> entry) list"

text \<open>
  What a run does that can be observed besides the directory: the lines it prints for a
  skipped, a processed and an archived date, the calls of \<^verbatim>\<open>client.retrieve\<close> and the
  calls of \<^verbatim>\<open>shutil.rmtree\<close>.
\<close>

datatype event =
    Skipped date
  | Retrieve date
  | Rmtree string
  | Processed date
  | Archived date

text \<open>
  The state: the output directory, the events so far, and the store of the dictionary
  objects of the caller, by reference.
\<close>

record state =
  fs :: directory
  trace :: "event list"
  heap :: "nat \<Rightarrow> config"

record pipeline =
  data_dir :: string
  redownload :: bool
  debug :: bool

text \<open>
  What the collaborators do during one call of \<^verbatim>\<open>download_data_for_date\<close> is not
  decided by the script; it is a parameter of the model:
  \<^item> \<open>mkdtemp_result\<close>: \<^verbatim>\<open>tempfile.mkdtemp\<close> raises, or chooses the random part of the
    name of the new directory;
  \<^item> \<open>retrieve_written\<close>: the size of the file the client leaves at the destination path,
    if it leaves one;
  \<^item> \<open>retrieve_raised\<close>: the exception \<^verbatim>\<open>client.retrieve\<close> raises, if any;
  \<^item> \<open>move_raised\<close>: the exception the operating system makes \<^verbatim>\<open>shutil.move\<close> raise,
    if any;
  \<^item> \<open>rmtree_raised\<close>: the exception \<^verbatim>\<open>shutil.rmtree\<close> raises, if any.
\<close>

record attempt =
  mkdtemp_result :: "exn + string"
  retrieve_written :: "nat option"
  retrieve_raised :: "exn option"
  move_raised :: "exn option"
  rmtree_raised :: "exn option"

text \<open>\<^verbatim>\<open>os.path.join(a, b)\<close> for a relative \<open>b\<close>.\<close>

definition path_join :: "string \<Rightarrow> string \<Rightarrow> string" where
  "path_join a b = (if a = [] \<or> last a = CHR ''/'' then a @ b else a @ ''/'' @ b)"

definition tmp_prefix :: string where
  "tmp_prefix = ''era5_download_''"

text \<open>
  \<^verbatim>\<open>shutil.move(output_file, final_path)\<close>, from the temporary directory \<open>tmp\<close> to the
  entry \<open>fname\<close> of the output directory. When the destination is an existing directory
  the file is moved into it, and \<^verbatim>\<open>shutil.Error\<close> is raised when it holds that name
  already; otherwise the file is renamed onto the destination, replacing a file there.
\<close>

definition shutil_move :: "attempt \<Rightarrow> string \<Rightarrow> string \<Rightarrow> nat \<Rightarrow> directory \<Rightarrow> exn + directory" where
  "shutil_move a tmp fname n dir =
     (case move_raised a of
        Some e \<Rightarrow> Inl e
      | None \<Rightarrow>
          (case map_of dir fname of
             Some (Dir files) \<Rightarrow>
               if map_of files fname \<noteq> None
               then Inl (Raised ''Error'' ''Destination path already exists'')
               else Inr (AList.update tmp (Dir [])
                          (AList.update fname (Dir (files @ [(fname, n)])) dir))
           | _ \<Rightarrow> Inr (AList.update tmp (Dir []) (AList.update fname (File n) dir))))"

section \<open>Downloading one date\<close>

text \<open>
  The \<^verbatim>\<open>try\<close> block of \<^verbatim>\<open>download_data_for_date\<close>, from \<^verbatim>\<open>tempfile.mkdtemp\<close>
  to \<^verbatim>\<open>return final_path\<close>. The result is the exception that leaves the block or the
  value it returns, the value of the variable \<^verbatim>\<open>temp_dir\<close> at that moment, and the
  state. \<^verbatim>\<open>mkdtemp\<close> never returns a name in use; a candidate that exists is the case
  in which it gives up with \<^verbatim>\<open>FileExistsError\<close>.
\<close>

definition download_attempt ::
  "pipeline \<Rightarrow> attempt \<Rightarrow> date \<Rightarrow> state \<Rightarrow> (exn + string option) \<times> string option \<times> state" where
  "download_attempt self a target_date s =
     (case mkdtemp_result a of
        Inl e \<Rightarrow> (Inl e, None, s)
      | Inr suffix \<Rightarrow>
          (let temp_dir = tmp_prefix @ suffix in
           if map_of (fs s) temp_dir \<noteq> None
           then (Inl (Raised ''FileExistsError'' temp_dir), None, s)
           else
             (let fname = strftime_ymd target_date @ ''.nc'';
                  written = (case retrieve_written a of None \<Rightarrow> [] | Some n \<Rightarrow> [(fname, n)]);
                  s1 = s\<lparr>fs := fs s @ [(temp_dir, Dir written)],
                         trace := trace s @ [Retrieve target_date]\<rparr>
              in (case retrieve_raised a of
                    Some e \<Rightarrow> (Inl e, Some temp_dir, s1)
                  | None \<Rightarrow>
                      (case retrieve_written a of
                         None \<Rightarrow> (Inr None, Some temp_dir, s1)
                       | Some n \<Rightarrow>
                           if n = 0 then (Inr None, Some temp_dir, s1)
                           else (case shutil_move a temp_dir fname n (fs s1) of
                                   Inl e \<Rightarrow> (Inl e, Some temp_dir, s1)
                                 | Inr dir \<Rightarrow>
                                     (Inr (Some (path_join (data_dir self) fname)),
                                      Some temp_dir, s1\<lparr>fs := dir\<rparr>)))))))"

text \<open>
  The \<^verbatim>\<open>finally\<close> block: when \<^verbatim>\<open>temp_dir\<close> is set and exists,
  \<^verbatim>\<open>shutil.rmtree\<close> is called; an exception it raises is logged and dropped, and the
  directory stays.
\<close>

definition cleanup :: "attempt \<Rightarrow> string option \<Rightarrow> state \<Rightarrow> state" where
  "cleanup a temp_dir s =
     (case temp_dir of
        None \<Rightarrow> s
      | Some tmp \<Rightarrow>
          if map_of (fs s) tmp = None then s
          else (case rmtree_raised a of
                  Some e \<Rightarrow> s\<lparr>trace := trace s @ [Rmtree tmp]\<rparr>
                | None \<Rightarrow> s\<lparr>fs := AList.delete tmp (fs s), trace := trace s @ [Rmtree tmp]\<rparr>))"

text \<open>
  \<^verbatim>\<open>download_data_for_date(target_date, config)\<close>. The argument \<open>config\<close> is
  \<open>None\<close> or the reference of a dictionary of the caller. The result is \<open>Inl e\<close> when the
  exception \<open>e\<close> reaches the caller and \<open>Inr r\<close> when the call returns \<open>r\<close>, the path of
  the file or \<open>None\<close>. The handler of the validation is \<^verbatim>\<open>except ValueError\<close>, the
  handler of the \<^verbatim>\<open>try\<close> block is \<^verbatim>\<open>except Exception\<close>.
\<close>

definition download_data_for_date ::
  "pipeline \<Rightarrow> attempt \<Rightarrow> date \<Rightarrow> nat option \<Rightarrow> state \<Rightarrow> (exn + string option) \<times> state" where
  "download_data_for_date self a target_date config s =
     (if debug self then (Inr None, s)
      else
        (let dict = (case config of None \<Rightarrow> get_default_download_config | Some r \<Rightarrow> heap s r);
             (dict1, raised) = validate_download_config dict;
             s0 = (case config of None \<Rightarrow> s | Some r \<Rightarrow> s\<lparr>heap := (heap s)(r := dict1)\<rparr>)
         in (case raised of
               Some (ValueError msg) \<Rightarrow> (Inr None, s0)
             | Some e \<Rightarrow> (Inl e, s0)
             | None \<Rightarrow>
                 (case download_attempt self a target_date s0 of
                    (Inl e, temp_dir, s1) \<Rightarrow> (Inr None, cleanup a temp_dir s1)
                  | (Inr r, temp_dir, s1) \<Rightarrow> (Inr r, cleanup a temp_dir s1)))))"

definition process_data_for_date :: "date \<Rightarrow> state \<Rightarrow> state" where
  "process_data_for_date d s = s\<lparr>trace := trace s @ [Processed d]\<rparr>"

definition archive_data_for_date :: "date \<Rightarrow> state \<Rightarrow> state" where
  "archive_data_for_date d s = s\<lparr>trace := trace s @ [Archived d]\<rparr>"

section \<open>The run over a range of dates\<close>

text \<open>
  \<^verbatim>\<open>_get_already_downloaded_dates\<close>: the dates of the regular files of the output
  directory whose name, up to the first dot, parses as a date.
\<close>

definition get_already_downloaded_dates :: "directory \<Rightarrow> date list" where
  "get_already_downloaded_dates dir =
     List.map_filter
       (\<lambda>(fname, e). case e of
                        File n \<Rightarrow> strptime_ymd (split_dot_first fname)
                      | Dir files \<Rightarrow> None)
       dir"

text \<open>
  The clock: \<^verbatim>\<open>datetime.now(timezone.utc)\<close> is a date and a time of day (in seconds);
  \<^verbatim>\<open>.date()\<close> keeps the date.
\<close>

type_synonym datetime = "date \<times> nat"

definition datetime_date :: "datetime \<Rightarrow> date" where
  "datetime_date now = fst now"

text \<open>
  \<^verbatim>\<open>_get_start_and_end_dates\<close>. An argument is \<open>None\<close> or a date, and a date is always
  true in a condition. The function computes the latest available date first, in every
  case. When no branch is taken it returns Python's \<^verbatim>\<open>None\<close>, here the inner \<open>None\<close>.
\<close>

definition get_start_and_end_dates ::
  "datetime \<Rightarrow> date option \<Rightarrow> date option \<Rightarrow> date option \<Rightarrow> exn + (date \<times> date) option" where
  "get_start_and_end_dates now start_date end_date fixed_date =
     (case sub_days (datetime_date now) 5 of
        Inl e \<Rightarrow> Inl e
      | Inr latest_available_date \<Rightarrow>
          (case fixed_date of
             Some f \<Rightarrow> Inr (Some (f, f))
           | None \<Rightarrow>
               (case (start_date, end_date) of
                  (Some sd, Some ed) \<Rightarrow> Inr (Some (sd, ed))
                | (Some sd, None) \<Rightarrow> Inr (Some (sd, latest_available_date))
                | (None, Some ed) \<Rightarrow> Inr (Some ((1940, 1, 1), ed))
                | (None, None) \<Rightarrow> Inr None)))"

text \<open>
  The body of the \<^verbatim>\<open>while\<close> loop for one date, up to the increment that ends both of
  its branches: the date is skipped, or downloaded, processed and archived. The loop
  calls \<^verbatim>\<open>download_data_for_date\<close> without a configuration.
\<close>

definition handle_date ::
  "pipeline \<Rightarrow> (date \<Rightarrow> attempt) \<Rightarrow> date list \<Rightarrow> date \<Rightarrow> state \<Rightarrow> exn option \<times> state" where
  "handle_date self env already_downloaded_dates current_date s =
     (if current_date \<in> set already_downloaded_dates \<and> \<not> redownload self
      then (None, s\<lparr>trace := trace s @ [Skipped current_date]\<rparr>)
      else (case download_data_for_date self (env current_date) current_date None s of
              (Inl e, s1) \<Rightarrow> (Some e, s1)
            | (Inr r, s1) \<Rightarrow>
                (None, archive_data_for_date current_date
                         (process_data_for_date current_date s1))))"

function daily_loop ::
  "pipeline \<Rightarrow> (date \<Rightarrow> attempt) \<Rightarrow> date list \<Rightarrow> date \<Rightarrow> date \<Rightarrow> state \<Rightarrow> exn option \<times> state" where
  "daily_loop self env already_downloaded_dates end_date current_date s =
     (if current_date \<le> end_date
      then (case handle_date self env already_downloaded_dates current_date s of
              (Some e, s1) \<Rightarrow> (Some e, s1)
            | (None, s1) \<Rightarrow>
                (case add_one_day current_date of
                   Inl e \<Rightarrow> (Some e, s1)
                 | Inr n \<Rightarrow> daily_loop self env already_downloaded_dates end_date n s1))
      else (None, s))"
  by pat_completeness auto
termination
  by (relation "measure (\<lambda>(self, env, already, end_date, cur, s). days_left cur)")
     (auto simp: add_one_day_days_left)

declare daily_loop.simps [simp del]

text \<open>
  \<^verbatim>\<open>process_and_archive_daily_data(start_date, end_date, fixed_date)\<close> on the values the
  parameters are bound to. The two \<^verbatim>\<open>assert\<close> statements come first; unpacking the
  \<^verbatim>\<open>None\<close> of \<^verbatim>\<open>_get_start_and_end_dates\<close> would raise \<^verbatim>\<open>TypeError\<close>. The result
  is the exception that ends the run, if any, and the state.
\<close>

definition process_and_archive_daily_data ::
  "pipeline \<Rightarrow> (date \<Rightarrow> attempt) \<Rightarrow> datetime \<Rightarrow> date option \<Rightarrow> date option \<Rightarrow> date option \<Rightarrow>
     state \<Rightarrow> exn option \<times> state" where
  "process_and_archive_daily_data self env now start_date end_date fixed_date s =
     (if \<not> (start_date \<noteq> None \<or> end_date \<noteq> None \<or> fixed_date \<noteq> None)
      then (Some (AssertionError
              ''At least one of start_date, end_date, or fixed_date must be provided.''), s)
      else if \<not> \<not> (end_date \<noteq> None \<and> fixed_date \<noteq> None)
      then (Some (AssertionError ''Provide either end_date or fixed_date, not both.''), s)
      else (case get_start_and_end_dates now start_date end_date fixed_date of
              Inl e \<Rightarrow> (Some e, s)
            | Inr None \<Rightarrow> (Some TypeError, s)
            | Inr (Some (start, end_date')) \<Rightarrow>
                daily_loop self env (get_already_downloaded_dates (fs s)) end_date' start s))"

text \<open>
  A call of the method. Each of the three parameters is left out by the caller
  (\<open>None\<close>) or given a value (\<open>Some v\<close>, where \<open>v\<close> is \<open>None\<close> or a date); a parameter
  left out is bound to its default: \<^verbatim>\<open>start_date = date(1940, 1, 1)\<close>,
  \<^verbatim>\<open>end_date = None\<close>, \<^verbatim>\<open>fixed_date = None\<close>.
\<close>

record call_args =
  start_date_arg :: "date option option"
  end_date_arg :: "date option option"
  fixed_date_arg :: "date option option"

definition call_process_and_archive_daily_data ::
  "pipeline \<Rightarrow> (date \<Rightarrow> attempt) \<Rightarrow> datetime \<Rightarrow> call_args \<Rightarrow> state \<Rightarrow> exn option \<times> state" where
  "call_process_and_archive_daily_data self env now args s =
     process_and_archive_daily_data self env now
       (case start_date_arg args of None \<Rightarrow> Some (1940, 1, 1) | Some v \<Rightarrow> v)
       (case end_date_arg args of None \<Rightarrow> None | Some v \<Rightarrow> v)
       (case fixed_date_arg args of None \<Rightarrow> None | Some v \<Rightarrow> v)
       s"

text \<open>Reading a trace.\<close>

fun visited_of :: "event \<Rightarrow> date list" where
  "visited_of (Skipped d) = [d]"
| "visited_of (Processed d) = [d]"
| "visited_of _ = []"

definition visited :: "event list \<Rightarrow> date list" where
  "visited evs = concat (map visited_of evs)"

fun is_retrieve :: "event \<Rightarrow> bool" where
  "is_retrieve (Retrieve d) = True"
| "is_retrieve _ = False"

definition retrieve_calls :: "event list \<Rightarrow> event list" where
  "retrieve_calls evs = filter is_retrieve evs"

section \<open>Reading results, and inputs for the examples\<close>

text \<open>The run was ended by one of the two \<^verbatim>\<open>assert\<close> statements.\<close>

fun is_assertion_error :: "exn option \<Rightarrow> bool" where
  "is_assertion_error (Some (AssertionError msg)) = True"
| "is_assertion_error _ = False"

text \<open>
  Two conditions on a configuration, in the words of the description of the validation:
  the field \<open>k\<close> is present and is a list that is not empty; the area is present, true
  in a condition, and not a list of four elements.
\<close>

definition nonempty_list_field :: "config \<Rightarrow> string \<Rightarrow> bool" where
  "nonempty_list_field c k = (case c k of None \<Rightarrow> False | Some v \<Rightarrow> is_list v \<and> py_len v \<noteq> 0)"

definition bad_area :: "config \<Rightarrow> bool" where
  "bad_area c = (case c ''area'' of None \<Rightarrow> False | Some v \<Rightarrow> truthy v \<and> \<not> (is_list v \<and> py_len v = 4))"

text \<open>
  A date is present in the output directory: some regular file of the directory has a
  name whose text before the first dot parses as that date in the form YYYY-MM-DD.
\<close>

definition present :: "directory \<Rightarrow> date \<Rightarrow> bool" where
  "present dir d \<longleftrightarrow>
     (\<exists>(fname, e) \<in> set dir.
        case e of File n \<Rightarrow> strptime_ymd (split_dot_first fname) = Some d | Dir files \<Rightarrow> False)"

text \<open>
  A download of the date \<open>d\<close> that goes well in the directory \<open>dir\<close>: no collaborator
  raises, \<^verbatim>\<open>mkdtemp\<close> has chosen a name that is not in use, the client leaves a file
  that is not empty, and the name of the output file is not the name of a subdirectory.
\<close>

definition successful :: "attempt \<Rightarrow> bool" where
  "successful a \<longleftrightarrow>
     (case mkdtemp_result a of Inl e \<Rightarrow> False | Inr suffix \<Rightarrow> True) \<and>
     (case retrieve_written a of None \<Rightarrow> False | Some n \<Rightarrow> 0 < n) \<and>
     retrieve_raised a = None \<and> move_raised a = None \<and> rmtree_raised a = None"

definition clean_success :: "attempt \<Rightarrow> directory \<Rightarrow> date \<Rightarrow> bool" where
  "clean_success a dir d \<longleftrightarrow>
     successful a \<and>
     (case mkdtemp_result a of
        Inl e \<Rightarrow> True
      | Inr suffix \<Rightarrow> map_of dir (tmp_prefix @ suffix) = None) \<and>
     (case map_of dir (strftime_ymd d @ ''.nc'') of
        Some (Dir files) \<Rightarrow> False
      | _ \<Rightarrow> True)"

text \<open>
  Concrete inputs: a pipeline with the default output directory and both flags off; a
  state with an empty output directory; a clock; and what the collaborators may do during
  one download: all goes well; the client raises; the client leaves an empty file; the
  client leaves no file and the removal of the temporary directory fails.
\<close>

definition example_pipeline :: pipeline where
  "example_pipeline = \<lparr>data_dir = ''./downloads/era5/healpix/'', redownload = False, debug = False\<rparr>"

definition empty_state :: state where
  "empty_state = \<lparr>fs = [], trace = [], heap = (\<lambda>r. Map.empty)\<rparr>"

definition example_now :: datetime where
  "example_now = ((2024, 12, 20), 43200)"

definition good_attempt :: attempt where
  "good_attempt = \<lparr>mkdtemp_result = Inr ''k3v9x2ab'', retrieve_written = Some 1048576,
     retrieve_raised = None, move_raised = None, rmtree_raised = None\<rparr>"

definition failing_attempt :: attempt where
  "failing_attempt = \<lparr>mkdtemp_result = Inr ''k3v9x2ab'', retrieve_written = None,
     retrieve_raised = Some (Raised ''HTTPError'' ''503 Service Unavailable''),
     move_raised = None, rmtree_raised = None\<rparr>"

definition empty_file_attempt :: attempt where
  "empty_file_attempt = \<lparr>mkdtemp_result = Inr ''k3v9x2ab'', retrieve_written = Some 0,
     retrieve_raised = None, move_raised = None, rmtree_raised = None\<rparr>"

definition stuck_cleanup_attempt :: attempt where
  "stuck_cleanup_attempt = \<lparr>mkdtemp_result = Inr ''k3v9x2ab'', retrieve_written = None,
     retrieve_raised = None, move_raised = None,
     rmtree_raised = Some (Raised ''PermissionError'' ''[Errno 13] Permission denied'')\<rparr>"

text \<open>
  Configurations of a caller: the default without its area, the default with an empty
  list of times, and the default without its area and with an empty list of times; and a
  state whose store holds one configuration at every reference.
\<close>

definition no_area_config :: config where
  "no_area_config = get_default_download_config(''area'' := None)"

definition empty_times_config :: config where
  "empty_times_config = get_default_download_config(''time'' \<mapsto> PList [])"

definition no_area_empty_times_config :: config where
  "no_area_empty_times_config = no_area_config(''time'' \<mapsto> PList [])"

definition caller_state :: "config \<Rightarrow> state" where
  "caller_state c = \<lparr>fs = [], trace = [], heap = (\<lambda>r. c)\<rparr>"

section \<open>Properties of the dates\<close>

text \<open>
  The next day of a valid date is valid, later, and the least valid date that is later;
  the increment fails on 9999-12-31 only. From this, what the loop enumerates.
\<close>

lemma add_one_day_valid:
  assumes "valid_date c" "add_one_day c = Inr n"
  shows "valid_date n"
proof -
  obtain y m d where c: "c = (y, m, d)" by (cases c)
  show ?thesis
    using assms unfolding c
    by (auto simp: MAXYEAR_def MINYEAR_def days_in_month_def split: if_splits)
qed

lemma add_one_day_less:
  assumes "add_one_day c = Inr n"
  shows "c < n"
proof -
  obtain y m d where c: "c = (y, m, d)" by (cases c)
  show ?thesis
    using assms unfolding c
    by (auto split: if_splits)
qed

lemma add_one_day_least:
  assumes "valid_date c" "add_one_day c = Inr n" "valid_date x" "c < x"
  shows "n \<le> x"
proof -
  obtain y m d where c: "c = (y, m, d)" by (cases c)
  obtain y' m' d' where x: "x = (y', m', d')" by (cases x)
  show ?thesis
    using assms unfolding c x
    by (cases "y = y'"; cases "m = m'")
       (auto simp: MAXYEAR_def MINYEAR_def split: if_splits)
qed

lemma add_one_day_overflow_max:
  assumes "valid_date c" "add_one_day c = Inl e"
  shows "c = (9999, 12, 31)"
proof -
  obtain y m d where c: "c = (y, m, d)" by (cases c)
  show ?thesis
    using assms unfolding c
    by (auto simp: MAXYEAR_def MINYEAR_def days_in_month_def split: if_splits)
qed

lemma valid_date_le_max:
  assumes "valid_date x"
  shows "x \<le> (9999, 12, 31)"
proof -
  obtain y m d where x: "x = (y, m, d)" by (cases x)
  have "days_in_month y m \<le> 31" by (rule days_in_month_le_31)
  then show ?thesis
    using assms unfolding x
    by (cases "y = 9999"; cases "m = 12") (auto simp: MAXYEAR_def)
qed

lemma add_one_day_overflow:
  assumes "valid_date c" "add_one_day c = Inl e" "valid_date x"
  shows "x \<le> c"
  using add_one_day_overflow_max [OF assms(1,2)] valid_date_le_max [OF assms(3)] by simp

lemma date_range_unfold_Inr:
  "cur \<le> e \<Longrightarrow> add_one_day cur = Inr n \<Longrightarrow> date_range cur e = cur # date_range n e"
  by (subst date_range.simps) simp

lemma date_range_unfold_Inl:
  "cur \<le> e \<Longrightarrow> add_one_day cur = Inl x \<Longrightarrow> date_range cur e = [cur]"
  by (subst date_range.simps) simp

lemma date_range_empty: "\<not> cur \<le> e \<Longrightarrow> date_range cur e = []"
  by (subst date_range.simps) simp

lemma date_range_set:
  "valid_date s \<Longrightarrow> set (date_range s e) = {d. valid_date d \<and> s \<le> d \<and> d \<le> e}"
proof (induction s e rule: date_range.induct)
  case (1 cur end_date)
  show ?case
  proof (cases "cur \<le> end_date")
    case False
    have "{d. valid_date d \<and> cur \<le> d \<and> d \<le> end_date} = {}"
    proof -
      have "\<And>x. cur \<le> x \<Longrightarrow> x \<le> end_date \<Longrightarrow> False"
        using False order_trans by blast
      then show ?thesis by blast
    qed
    then show ?thesis by (simp add: date_range_empty [OF False])
  next
    case le: True
    show ?thesis
    proof (cases "add_one_day cur")
      case (Inl e)
      have top: "\<And>x. valid_date x \<Longrightarrow> x \<le> cur"
        using add_one_day_overflow [OF "1.prems" Inl] .
      have "{d. valid_date d \<and> cur \<le> d \<and> d \<le> end_date} = {cur}"
      proof (rule set_eqI)
        fix x
        have "valid_date x \<Longrightarrow> cur \<le> x \<Longrightarrow> x = cur"
          using top [of x] by (rule antisym)
        then show "x \<in> {d. valid_date d \<and> cur \<le> d \<and> d \<le> end_date} \<longleftrightarrow> x \<in> {cur}"
          using le "1.prems" by blast
      qed
      then show ?thesis
        by (simp add: date_range_unfold_Inl [OF le Inl])
    next
      case (Inr n)
      have v: "valid_date n" using add_one_day_valid [OF "1.prems" Inr] .
      have IH: "set (date_range n end_date) = {d. valid_date d \<and> n \<le> d \<and> d \<le> end_date}"
        using "1.IH" [OF le Inr v] .
      have lt: "cur < n" using add_one_day_less [OF Inr] .
      have least: "\<And>x. valid_date x \<Longrightarrow> cur < x \<Longrightarrow> n \<le> x"
        using add_one_day_least [OF "1.prems" Inr] .
      have "set (date_range cur end_date) = insert cur (set (date_range n end_date))"
        by (simp add: date_range_unfold_Inr [OF le Inr])
      also have "\<dots> = {d. valid_date d \<and> cur \<le> d \<and> d \<le> end_date}"
      proof (rule set_eqI)
        fix x
        show "x \<in> insert cur (set (date_range n end_date)) \<longleftrightarrow>
              x \<in> {d. valid_date d \<and> cur \<le> d \<and> d \<le> end_date}"
        proof (cases "x = cur")
          case True
          then show ?thesis using le "1.prems" by simp
        next
          case False
          have "n \<le> x \<Longrightarrow> cur \<le> x" using lt by (simp add: less_le_trans less_imp_le)
          moreover have "valid_date x \<Longrightarrow> cur \<le> x \<Longrightarrow> n \<le> x"
            using least [of x] False by (simp add: order.strict_iff_order)
          ultimately show ?thesis unfolding IH using False by blast
        qed
      qed
      finally show ?thesis .
    qed
  qed
qed

lemma date_range_lower: "x \<in> set (date_range s e) \<Longrightarrow> s \<le> x"
proof (induction s e rule: date_range.induct)
  case (1 cur end_date)
  have le: "cur \<le> end_date"
  proof (rule ccontr)
    assume "\<not> cur \<le> end_date"
    then show False using "1.prems" by (simp add: date_range_empty)
  qed
  show ?case
  proof (cases "add_one_day cur")
    case (Inl e)
    then show ?thesis using "1.prems" by (simp add: date_range_unfold_Inl [OF le Inl])
  next
    case (Inr n)
    from "1.prems" have "x = cur \<or> x \<in> set (date_range n end_date)"
      by (simp add: date_range_unfold_Inr [OF le Inr])
    then show ?thesis
    proof
      assume "x = cur" then show ?thesis by simp
    next
      assume "x \<in> set (date_range n end_date)"
      then have "n \<le> x" by (rule "1.IH" [OF le Inr])
      moreover have "cur < n" by (rule add_one_day_less [OF Inr])
      ultimately show ?thesis by (simp add: less_le_trans less_imp_le)
    qed
  qed
qed

lemma date_range_ascending: "sorted_wrt (<) (date_range s e)"
proof (induction s e rule: date_range.induct)
  case (1 cur end_date)
  show ?case
  proof (cases "cur \<le> end_date")
    case False
    then show ?thesis by (simp add: date_range_empty)
  next
    case le: True
    show ?thesis
    proof (cases "add_one_day cur")
      case (Inl e)
      then show ?thesis by (simp add: date_range_unfold_Inl [OF le Inl])
    next
      case (Inr n)
      have "\<And>x. x \<in> set (date_range n end_date) \<Longrightarrow> cur < x"
        using date_range_lower add_one_day_less [OF Inr] by (simp add: less_le_trans)
      then show ?thesis
        using "1.IH" [OF le Inr] by (simp add: date_range_unfold_Inr [OF le Inr])
    qed
  qed
qed

lemma date_range_hd: "0 < length (date_range s e) \<Longrightarrow> date_range s e ! 0 = s"
  by (subst date_range.simps, subst (asm) date_range.simps) (simp split: if_splits)

lemma date_range_step:
  "Suc i < length (date_range s e) \<Longrightarrow>
   add_one_day (date_range s e ! i) = Inr (date_range s e ! Suc i)"
proof (induction s e arbitrary: i rule: date_range.induct)
  case (1 cur end_date)
  have le: "cur \<le> end_date"
  proof (rule ccontr)
    assume "\<not> cur \<le> end_date"
    then show False using "1.prems" by (simp add: date_range_empty)
  qed
  show ?case
  proof (cases "add_one_day cur")
    case (Inl e)
    then show ?thesis using "1.prems" by (simp add: date_range_unfold_Inl [OF le Inl])
  next
    case (Inr n)
    have unf: "date_range cur end_date = cur # date_range n end_date"
      by (rule date_range_unfold_Inr [OF le Inr])
    show ?thesis
    proof (cases i)
      case 0
      then show ?thesis using "1.prems" Inr by (simp add: unf date_range_hd)
    next
      case (Suc j)
      then show ?thesis using "1.prems" "1.IH" [OF le Inr, of j] by (simp add: unf)
    qed
  qed
qed

lemma days_in_month_pos: "1 \<le> m \<Longrightarrow> m \<le> 12 \<Longrightarrow> 1 \<le> days_in_month y m"
  by (simp add: days_in_month_def)

lemma days_in_month_12: "days_in_month y 12 = 31"
  by (simp add: days_in_month_def)

lemma sub_one_day_inverse:
  assumes "valid_date d" "sub_one_day d = Inr p"
  shows "valid_date p \<and> add_one_day p = Inr d"
proof -
  obtain y m dd where d: "d = (y, m, dd)" by (cases d)
  have v: "1 \<le> y" "y \<le> 9999" "1 \<le> m" "m \<le> 12" "1 \<le> dd" "dd \<le> days_in_month y m"
    using assms(1) unfolding d by (simp_all add: MINYEAR_def MAXYEAR_def)
  consider (day) "1 < dd" | (month) "dd = 1" "1 < m" | (year) "dd = 1" "m = 1" "1 < y"
    | (none) "dd = 1" "m = 1" "y = 1"
    using v by linarith
  then show ?thesis
  proof cases
    case day
    then have "p = (y, m, dd - 1)" using assms(2) unfolding d by simp
    then show ?thesis using day v unfolding d
      by (auto simp: MINYEAR_def MAXYEAR_def)
  next
    case month
    then have p: "p = (y, m - 1, days_in_month y (m - 1))"
      using assms(2) unfolding d by simp
    have "1 \<le> days_in_month y (m - 1)"
      using month v by (intro days_in_month_pos) simp_all
    then show ?thesis using month v unfolding d p
      by (auto simp: MINYEAR_def MAXYEAR_def)
  next
    case year
    then have p: "p = (y - 1, 12, 31)"
      using assms(2) unfolding d by (simp add: MINYEAR_def)
    show ?thesis using year v unfolding d p
      by (auto simp: MINYEAR_def MAXYEAR_def days_in_month_12)
  next
    case none
    then show ?thesis using assms(2) unfolding d by (simp add: MINYEAR_def)
  qed
qed

lemma add_days_Suc_right:
  "add_days p (Suc n) = (case add_days p n of Inl e \<Rightarrow> Inl e | Inr q \<Rightarrow> add_one_day q)"
proof (induction n arbitrary: p)
  case 0
  then show ?case by (simp split: sum.splits)
next
  case (Suc n)
  show ?case
  proof (cases "add_one_day p")
    case (Inl e)
    then show ?thesis by simp
  next
    case (Inr q)
    have "add_days p (Suc (Suc n)) = add_days q (Suc n)" using Inr by simp
    also have "\<dots> = (case add_days q n of Inl e \<Rightarrow> Inl e | Inr r \<Rightarrow> add_one_day r)"
      by (rule Suc.IH)
    also have "add_days q n = add_days p (Suc n)" using Inr by simp
    finally show ?thesis .
  qed
qed

lemma sub_days_inverse:
  "valid_date d \<Longrightarrow> sub_days d n = Inr p \<Longrightarrow> valid_date p \<and> add_days p n = Inr d"
proof (induction n arbitrary: d)
  case 0
  then show ?case by simp
next
  case (Suc n)
  from Suc.prems(2) obtain q where q: "sub_one_day d = Inr q" and r: "sub_days q n = Inr p"
    by (cases "sub_one_day d") auto
  have vq: "valid_date q" and inv: "add_one_day q = Inr d"
    using sub_one_day_inverse [OF Suc.prems(1) q] by simp_all
  have "valid_date p" and "add_days p n = Inr q"
    using Suc.IH [OF vq r] by simp_all
  then show ?case by (simp only: add_days_Suc_right inv sum.case)
qed

lemma date_range_single:
  "date_range d d = [d]"
proof (cases "add_one_day d")
  case (Inl e)
  then show ?thesis by (simp add: date_range_unfold_Inl)
next
  case (Inr n)
  have "d < n" by (rule add_one_day_less [OF Inr])
  then have "\<not> n \<le> d" by simp
  then show ?thesis by (simp add: date_range_unfold_Inr [OF _ Inr] date_range_empty)
qed

lemma sub_one_day_error: "sub_one_day d = Inl e \<Longrightarrow> e = OverflowError"
  by (cases d) (auto split: if_splits)

lemma sub_days_error: "sub_days d n = Inl e \<Longrightarrow> e = OverflowError"
proof (induction n arbitrary: d)
  case 0
  then show ?case by simp
next
  case (Suc n)
  then show ?case
    by (cases "sub_one_day d") (auto dest: sub_one_day_error)
qed

lemma add_one_day_error: "add_one_day d = Inl e \<Longrightarrow> e = OverflowError"
  by (cases d) (auto split: if_splits)

lemma distinct_date_range: "distinct (date_range s e)"
  using date_range_ascending [of s e] by (simp add: strict_sorted_iff)

lemma sub_days_numeral:
  "sub_days d (numeral k) =
     (case sub_one_day d of Inl e \<Rightarrow> Inl e | Inr p \<Rightarrow> sub_days p (pred_numeral k))"
  by (simp add: numeral_eq_Suc)

lemma add_days_numeral:
  "add_days d (numeral k) =
     (case add_one_day d of Inl e \<Rightarrow> Inl e | Inr p \<Rightarrow> add_days p (pred_numeral k))"
  by (simp add: numeral_eq_Suc)

lemma sub_days_one:
  "sub_days d 1 = (case sub_one_day d of Inl e \<Rightarrow> Inl e | Inr p \<Rightarrow> Inr p)"
  by (simp split: sum.splits)

lemma add_days_one:
  "add_days d 1 = (case add_one_day d of Inl e \<Rightarrow> Inl e | Inr p \<Rightarrow> Inr p)"
  by (simp split: sum.splits)

lemmas date_eval = days_in_month_def is_leap_def MAXYEAR_def MINYEAR_def datetime_date_def
  sub_days_numeral add_days_numeral sub_days_one add_days_one

section \<open>Properties of the validation\<close>

lemma check_nonempty_list_raises:
  "c k \<noteq> None \<Longrightarrow> check_nonempty_list c k = Some e \<Longrightarrow> \<exists>msg. e = ValueError msg"
  by (auto simp: check_nonempty_list_def split: option.splits if_splits)

lemma validate_raises_ValueError:
  assumes "snd (validate_download_config c) = Some e"
  shows "\<exists>msg. e = ValueError msg"
proof (cases "\<forall>k \<in> set required_keys. c k \<noteq> None")
  case False
  then show ?thesis using assms by (auto simp: validate_download_config_def)
next
  case True
  then have k: "c ''variable'' \<noteq> None" "c ''pressure_level'' \<noteq> None" "c ''time'' \<noteq> None"
    by (simp_all add: required_keys_def)
  show ?thesis
    using assms True k check_nonempty_list_raises [of c "''variable''" e]
      check_nonempty_list_raises [of c "''pressure_level''" e]
      check_nonempty_list_raises [of c "''time''" e]
    by (auto simp: validate_download_config_def Let_def get_area_def global_area_def
             split: option.splits if_splits)
qed

lemma validate_default: "validate_download_config get_default_download_config = (get_default_download_config, None)"
  by (simp add: validate_download_config_def get_default_download_config_def required_keys_def
        check_nonempty_list_def get_area_def global_area_def)

lemma check_nonempty_list_iff:
  "check_nonempty_list c k = None \<longleftrightarrow> nonempty_list_field c k"
  by (auto simp: check_nonempty_list_def nonempty_list_field_def split: option.splits)

lemma truthy_global_area: "truthy global_area" "is_list global_area" "py_len global_area = 4"
  by (simp_all add: global_area_def)

lemma validate_fields_bad:
  assumes "\<not> (\<forall>k \<in> set required_keys. nonempty_list_field c k)"
  shows "\<exists>e. validate_download_config c = (c, Some e)"
proof (cases "\<forall>k \<in> set required_keys. c k \<noteq> None")
  case False
  then show ?thesis by (simp add: validate_download_config_def)
next
  case True
  have "check_nonempty_list c ''variable'' \<noteq> None
      \<or> check_nonempty_list c ''pressure_level'' \<noteq> None \<or> check_nonempty_list c ''time'' \<noteq> None"
    using assms by (auto simp: check_nonempty_list_iff required_keys_def)
  then show ?thesis
    using True by (auto simp: validate_download_config_def split: option.splits)
qed

lemma validate_fields_bad_fst:
  "\<not> (\<forall>k \<in> set required_keys. nonempty_list_field c k) \<Longrightarrow> fst (validate_download_config c) = c"
  using validate_fields_bad [of c] by auto

lemma validate_fields_ok:
  assumes "\<forall>k \<in> set required_keys. nonempty_list_field c k"
  shows "validate_download_config c =
           (if \<not> truthy (get_area c) then (c(''area'' \<mapsto> global_area), None)
            else if bad_area c
            then (c, Some (ValueError ''area must be a list of 4 values [North, West, South, East]''))
            else (c, None))"
proof -
  have k: "\<forall>k \<in> set required_keys. c k \<noteq> None"
    using assms by (auto simp: nonempty_list_field_def split: option.splits)
  have ch: "check_nonempty_list c ''variable'' = None" "check_nonempty_list c ''pressure_level'' = None"
    "check_nonempty_list c ''time'' = None"
    using assms by (simp_all add: check_nonempty_list_iff required_keys_def)
  have step: "validate_download_config c =
      (let config1 = (if \<not> truthy (get_area c) then c(''area'' \<mapsto> global_area) else c)
       in (case config1 ''area'' of
             None \<Rightarrow> (config1, Some (Raised ''KeyError'' ''area''))
           | Some v \<Rightarrow>
               if \<not> is_list v \<or> py_len v \<noteq> 4
               then (config1, Some (ValueError
                      ''area must be a list of 4 values [North, West, South, East]''))
               else (config1, None)))"
    using k by (simp add: validate_download_config_def ch)
  show ?thesis
  proof (cases "truthy (get_area c)")
    case False
    then show ?thesis by (simp add: step truthy_global_area)
  next
    case True
    then obtain v where v: "c ''area'' = Some v" "truthy v"
      by (cases "c ''area''") (simp_all add: get_area_def)
    show ?thesis using True v by (auto simp: step bad_area_def)
  qed
qed

lemma validate_ok_iff:
  "snd (validate_download_config c) = None \<longleftrightarrow>
     (\<forall>k \<in> set required_keys. nonempty_list_field c k) \<and> \<not> bad_area c"
proof (cases "\<forall>k \<in> set required_keys. nonempty_list_field c k")
  case False
  then show ?thesis using validate_fields_bad [OF False] by auto
next
  case True
  have "\<not> truthy (get_area c) \<Longrightarrow> \<not> bad_area c"
    by (auto simp: get_area_def bad_area_def split: option.splits)
  then show ?thesis using True by (auto simp: validate_fields_ok [OF True])
qed

lemma validate_result:
  "fst (validate_download_config c) =
     (if snd (validate_download_config c) = None \<and> \<not> truthy (get_area c)
      then c(''area'' \<mapsto> global_area) else c)"
proof (cases "\<forall>k \<in> set required_keys. nonempty_list_field c k")
  case False
  then show ?thesis using validate_fields_bad [OF False] by auto
next
  case True
  then show ?thesis by (simp add: validate_fields_ok [OF True])
qed

section \<open>Properties of the download of one date\<close>

lemma download_never_raises:
  "\<exists>r. fst (download_data_for_date self a d cfg s) = Inr r"
proof (cases "debug self")
  case True
  then show ?thesis by (simp add: download_data_for_date_def)
next
  case False
  obtain dict1 raised where v: "validate_download_config
      (case cfg of None \<Rightarrow> get_default_download_config | Some r \<Rightarrow> heap s r) = (dict1, raised)"
    by (cases "validate_download_config
      (case cfg of None \<Rightarrow> get_default_download_config | Some r \<Rightarrow> heap s r)")
  show ?thesis
  proof (cases raised)
    case None
    then show ?thesis using False v
      by (auto simp: download_data_for_date_def Let_def split: prod.splits sum.splits)
  next
    case (Some e)
    then obtain msg where "e = ValueError msg"
      using validate_raises_ValueError [of _ e] v by (metis snd_conv)
    then show ?thesis using False v Some
      by (simp add: download_data_for_date_def Let_def)
  qed
qed

lemma download_debug:
  "debug self \<Longrightarrow> download_data_for_date self a d cfg s = (Inr None, s)"
  by (simp add: download_data_for_date_def)

lemma download_attempt_no_tempdir:
  assumes "mkdtemp_result a = Inl e \<or>
           (\<exists>suffix. mkdtemp_result a = Inr suffix \<and> map_of (fs s) (tmp_prefix @ suffix) \<noteq> None)"
  shows "\<exists>e'. download_attempt self a d s = (Inl e', None, s)"
  using assms by (auto simp: download_attempt_def Let_def)

lemma map_of_shutil_move:
  "shutil_move a tmp fname n dir = Inr dir' \<Longrightarrow> map_of dir' tmp = Some (Dir [])"
  by (auto simp: shutil_move_def update_conv' split: option.splits entry.splits if_splits)

lemma download_attempt_tempdir:
  assumes "mkdtemp_result a = Inr suffix" "map_of (fs s) (tmp_prefix @ suffix) = None"
  shows "\<exists>res s1. download_attempt self a d s = (res, Some (tmp_prefix @ suffix), s1) \<and>
           trace s1 = trace s @ [Retrieve d] \<and> heap s1 = heap s \<and>
           map_of (fs s1) (tmp_prefix @ suffix) \<noteq> None"
  using assms
  by (auto simp: download_attempt_def Let_def map_of_shutil_move map_add_def
           split: option.splits sum.splits)

lemma cleanup_None: "cleanup a None s = s"
  by (simp add: cleanup_def)

lemma cleanup_Some:
  "map_of (fs s) tmp \<noteq> None \<Longrightarrow>
   cleanup a (Some tmp) s =
     (case rmtree_raised a of
        Some e \<Rightarrow> s\<lparr>trace := trace s @ [Rmtree tmp]\<rparr>
      | None \<Rightarrow> s\<lparr>fs := AList.delete tmp (fs s), trace := trace s @ [Rmtree tmp]\<rparr>)"
  by (auto simp: cleanup_def)

lemma download_valid_unfold:
  assumes "\<not> debug self"
    and "validate_download_config
           (case cfg of None \<Rightarrow> get_default_download_config | Some r \<Rightarrow> heap s r) = (dict1, None)"
  shows "download_data_for_date self a d cfg s =
           (case download_attempt self a d
                   (case cfg of None \<Rightarrow> s | Some r \<Rightarrow> s\<lparr>heap := (heap s)(r := dict1)\<rparr>) of
              (res, temp_dir, s1) \<Rightarrow>
                (case res of Inl e \<Rightarrow> Inr None | Inr r \<Rightarrow> Inr r, cleanup a temp_dir s1))"
  using assms
  by (simp add: download_data_for_date_def Let_def split: prod.splits sum.splits)

lemma download_invalid_unfold:
  assumes "\<not> debug self"
    and "validate_download_config
           (case cfg of None \<Rightarrow> get_default_download_config | Some r \<Rightarrow> heap s r) = (dict1, Some e)"
  shows "download_data_for_date self a d cfg s =
           (Inr None, case cfg of None \<Rightarrow> s | Some r \<Rightarrow> s\<lparr>heap := (heap s)(r := dict1)\<rparr>)"
proof -
  obtain msg where "e = ValueError msg"
    using validate_raises_ValueError [of _ e] assms(2) by (metis snd_conv)
  then show ?thesis
    using assms by (simp add: download_data_for_date_def Let_def)
qed

lemma download_default_unfold:
  assumes "\<not> debug self"
  shows "download_data_for_date self a d None s =
           (case download_attempt self a d s of
              (res, temp_dir, s1) \<Rightarrow>
                (case res of Inl e \<Rightarrow> Inr None | Inr r \<Rightarrow> Inr r, cleanup a temp_dir s1))"
  using download_valid_unfold [OF assms, where cfg = None and s = s and a = a and d = d
      and ?dict1.0 = get_default_download_config]
  by (simp add: validate_default)

lemma download_trace:
  "\<exists>evs. trace (snd (download_data_for_date self a d cfg s)) = trace s @ evs \<and>
         (evs = [] \<or> (\<exists>t. evs = [Retrieve d, Rmtree t]))"
proof (cases "debug self")
  case True
  then show ?thesis by (simp add: download_debug)
next
  case nd: False
  let ?dict = "case cfg of None \<Rightarrow> get_default_download_config | Some r \<Rightarrow> heap s r"
  obtain dict1 raised where v: "validate_download_config ?dict = (dict1, raised)"
    by (cases "validate_download_config ?dict")
  let ?s0 = "case cfg of None \<Rightarrow> s | Some r \<Rightarrow> s\<lparr>heap := (heap s)(r := dict1)\<rparr>"
  have t0: "trace ?s0 = trace s" and f0: "fs ?s0 = fs s"
    by (simp_all split: option.splits)
  show ?thesis
  proof (cases raised)
    case (Some e)
    then show ?thesis
      using download_invalid_unfold [OF nd, where cfg = cfg and s = s and a = a and d = d
          and ?dict1.0 = dict1 and e = e] v t0 by simp
  next
    case None
    have unf: "download_data_for_date self a d cfg s =
           (case download_attempt self a d ?s0 of
              (res, temp_dir, s1) \<Rightarrow>
                (case res of Inl e \<Rightarrow> Inr None | Inr r \<Rightarrow> Inr r, cleanup a temp_dir s1))"
      using v None by (intro download_valid_unfold [OF nd]) simp
    show ?thesis
    proof (cases "mkdtemp_result a = Inl (projl (mkdtemp_result a)) \<or>
        (\<exists>suffix. mkdtemp_result a = Inr suffix \<and> map_of (fs ?s0) (tmp_prefix @ suffix) \<noteq> None)")
      case True
      then obtain e' where "download_attempt self a d ?s0 = (Inl e', None, ?s0)"
        using download_attempt_no_tempdir [of a _ ?s0 self d] by blast
      then show ?thesis using unf t0 by (simp add: cleanup_None)
    next
      case False
      then obtain suffix where m: "mkdtemp_result a = Inr suffix"
          and fresh: "map_of (fs ?s0) (tmp_prefix @ suffix) = None"
        by (cases "mkdtemp_result a") auto
      obtain res s1 where da: "download_attempt self a d ?s0 = (res, Some (tmp_prefix @ suffix), s1)"
          and tr: "trace s1 = trace ?s0 @ [Retrieve d]"
          and ex: "map_of (fs s1) (tmp_prefix @ suffix) \<noteq> None"
        using download_attempt_tempdir [OF m fresh, of self d] by blast
      show ?thesis
        using unf da tr t0 by (simp add: cleanup_Some [OF ex] split: option.splits)
    qed
  qed
qed

lemma cleanup_heap: "heap (cleanup a t s) = heap s"
  by (simp add: cleanup_def split: option.splits)

lemma download_attempt_heap: "heap (snd (snd (download_attempt self a d s))) = heap s"
  by (simp add: download_attempt_def Let_def split: option.splits sum.splits)

lemma download_heap:
  "heap (snd (download_data_for_date self a d cfg s)) =
     (if debug self then heap s
      else case cfg of
             None \<Rightarrow> heap s
           | Some r \<Rightarrow> (heap s)(r := fst (validate_download_config (heap s r))))"
proof (cases "debug self")
  case True
  then show ?thesis by (simp add: download_debug)
next
  case nd: False
  let ?dict = "case cfg of None \<Rightarrow> get_default_download_config | Some r \<Rightarrow> heap s r"
  obtain dict1 raised where v: "validate_download_config ?dict = (dict1, raised)"
    by (cases "validate_download_config ?dict")
  let ?s0 = "case cfg of None \<Rightarrow> s | Some r \<Rightarrow> s\<lparr>heap := (heap s)(r := dict1)\<rparr>"
  have h0: "heap ?s0 = (case cfg of None \<Rightarrow> heap s
               | Some r \<Rightarrow> (heap s)(r := fst (validate_download_config (heap s r))))"
    using v by (cases cfg) auto
  show ?thesis
  proof (cases raised)
    case (Some e)
    have "download_data_for_date self a d cfg s = (Inr None, ?s0)"
      using v Some by (intro download_invalid_unfold [OF nd]) simp
    then show ?thesis using nd h0 by simp
  next
    case None
    have unf: "download_data_for_date self a d cfg s =
           (case download_attempt self a d ?s0 of
              (res, temp_dir, s1) \<Rightarrow>
                (case res of Inl e \<Rightarrow> Inr None | Inr r \<Rightarrow> Inr r, cleanup a temp_dir s1))"
      using v None by (intro download_valid_unfold [OF nd]) simp
    obtain res t s1 where da: "download_attempt self a d ?s0 = (res, t, s1)"
      by (cases "download_attempt self a d ?s0")
    have "heap s1 = heap ?s0" using download_attempt_heap [of self a d ?s0] da by simp
    then show ?thesis using nd h0 by (simp add: unf da cleanup_heap)
  qed
qed

lemma delete_append_fresh:
  "map_of al k = None \<Longrightarrow> AList.delete k (al @ [(k, v)]) = al"
  by (simp add: AList.delete_eq map_of_eq_None_iff filter_id_conv image_iff) force

lemma download_attempt_failed_fs:
  assumes "mkdtemp_result a = Inr suffix" "map_of (fs s) (tmp_prefix @ suffix) = None"
    and "retrieve_raised a \<noteq> None \<or> retrieve_written a = None \<or> retrieve_written a = Some 0"
  shows "\<exists>res w. download_attempt self a d s =
            (res, Some (tmp_prefix @ suffix),
             s\<lparr>fs := fs s @ [(tmp_prefix @ suffix, Dir w)], trace := trace s @ [Retrieve d]\<rparr>) \<and>
          (retrieve_raised a = None \<longrightarrow> res = Inr None)"
  using assms
  by (auto simp: download_attempt_def Let_def split: option.splits sum.splits)

lemma download_with_tempdir:
  assumes nd: "\<not> debug self"
    and v: "snd (validate_download_config
             (case cfg of None \<Rightarrow> get_default_download_config | Some r \<Rightarrow> heap s r)) = None"
    and m: "mkdtemp_result a = Inr suffix"
    and fresh: "map_of (fs s) (tmp_prefix @ suffix) = None"
  shows "\<exists>res s1. download_attempt self a d
                    (case cfg of None \<Rightarrow> s
                     | Some r \<Rightarrow> s\<lparr>heap := (heap s)(r := fst (validate_download_config (heap s r)))\<rparr>)
                  = (res, Some (tmp_prefix @ suffix), s1) \<and>
           trace s1 = trace s @ [Retrieve d] \<and>
           map_of (fs s1) (tmp_prefix @ suffix) \<noteq> None \<and>
           download_data_for_date self a d cfg s =
             (case res of Inl e \<Rightarrow> Inr None | Inr r \<Rightarrow> Inr r,
              case rmtree_raised a of
                Some e \<Rightarrow> s1\<lparr>trace := trace s1 @ [Rmtree (tmp_prefix @ suffix)]\<rparr>
              | None \<Rightarrow> s1\<lparr>fs := AList.delete (tmp_prefix @ suffix) (fs s1),
                            trace := trace s1 @ [Rmtree (tmp_prefix @ suffix)]\<rparr>)"
proof -
  let ?dict = "case cfg of None \<Rightarrow> get_default_download_config | Some r \<Rightarrow> heap s r"
  let ?s0 = "case cfg of None \<Rightarrow> s
             | Some r \<Rightarrow> s\<lparr>heap := (heap s)(r := fst (validate_download_config (heap s r)))\<rparr>"
  have vv: "validate_download_config ?dict = (fst (validate_download_config ?dict), None)"
    using v by (cases "validate_download_config ?dict") simp
  have s0: "(case cfg of None \<Rightarrow> s
             | Some r \<Rightarrow> s\<lparr>heap := (heap s)(r := fst (validate_download_config ?dict))\<rparr>) = ?s0"
    by (cases cfg) simp_all
  have unf: "download_data_for_date self a d cfg s =
           (case download_attempt self a d ?s0 of
              (res, temp_dir, s1) \<Rightarrow>
                (case res of Inl e \<Rightarrow> Inr None | Inr r \<Rightarrow> Inr r, cleanup a temp_dir s1))"
    using download_valid_unfold [OF nd vv, of a d] unfolding s0 .
  have f0: "map_of (fs ?s0) (tmp_prefix @ suffix) = None" and t0: "trace ?s0 = trace s"
    using fresh by (simp_all split: option.splits)
  obtain res s1 where da: "download_attempt self a d ?s0 = (res, Some (tmp_prefix @ suffix), s1)"
      and tr: "trace s1 = trace ?s0 @ [Retrieve d]"
      and ex: "map_of (fs s1) (tmp_prefix @ suffix) \<noteq> None"
    using download_attempt_tempdir [OF m f0, of self d] by blast
  show ?thesis
    using da tr ex t0 by (simp add: unf cleanup_Some [OF ex])
qed

section \<open>Properties of the loop over the dates\<close>

lemma visited_append: "visited (xs @ ys) = visited xs @ visited ys"
  by (simp add: visited_def)

lemma retrieve_calls_append: "retrieve_calls (xs @ ys) = retrieve_calls xs @ retrieve_calls ys"
  by (simp add: retrieve_calls_def)

lemma handle_date_ok: "fst (handle_date self env al cur s) = None"
proof -
  obtain r where "fst (download_data_for_date self (env cur) cur None s) = Inr r"
    using download_never_raises by blast
  then show ?thesis
    by (cases "download_data_for_date self (env cur) cur None s")
       (simp add: handle_date_def)
qed

lemma handle_date_visited:
  "visited (trace (snd (handle_date self env al cur s))) = visited (trace s) @ [cur]"
proof (cases "cur \<in> set al \<and> \<not> redownload self")
  case True
  then show ?thesis by (simp add: handle_date_def visited_def)
next
  case False
  obtain r where r: "fst (download_data_for_date self (env cur) cur None s) = Inr r"
    using download_never_raises by blast
  obtain evs where evs: "trace (snd (download_data_for_date self (env cur) cur None s)) = trace s @ evs"
    and shape: "evs = [] \<or> (\<exists>t. evs = [Retrieve cur, Rmtree t])"
    using download_trace by blast
  have "visited evs = []" using shape by (auto simp: visited_def)
  then show ?thesis
    using False r evs
    by (cases "download_data_for_date self (env cur) cur None s")
       (simp add: handle_date_def process_data_for_date_def archive_data_for_date_def
          visited_append, simp add: visited_def)
qed

lemma daily_loop_done:
  "\<not> cur \<le> e \<Longrightarrow> daily_loop self env al e cur s = (None, s)"
  by (subst daily_loop.simps) simp

lemma daily_loop_step:
  assumes "cur \<le> e"
  shows "daily_loop self env al e cur s =
     (case add_one_day cur of
        Inl x \<Rightarrow> (Some x, snd (handle_date self env al cur s))
      | Inr n \<Rightarrow> daily_loop self env al e n (snd (handle_date self env al cur s)))"
proof -
  obtain b where h: "handle_date self env al cur s = (None, b)"
    using handle_date_ok [of self env al cur s]
    by (cases "handle_date self env al cur s") simp
  show ?thesis
    by (subst daily_loop.simps) (simp add: h assms split: sum.splits)
qed

lemma daily_loop_visited:
  "visited (trace (snd (daily_loop self env al e cur s))) = visited (trace s) @ date_range cur e"
proof (induction cur e arbitrary: s rule: date_range.induct)
  case (1 cur end_date)
  show ?case
  proof (cases "cur \<le> end_date")
    case False
    then show ?thesis by (simp add: daily_loop_done date_range_empty)
  next
    case le: True
    show ?thesis
    proof (cases "add_one_day cur")
      case (Inl x)
      then show ?thesis
        by (simp add: daily_loop_step [OF le] date_range_unfold_Inl [OF le Inl] handle_date_visited)
    next
      case (Inr n)
      show ?thesis
        using "1.IH" [OF le Inr, of "snd (handle_date self env al cur s)"]
        by (simp add: daily_loop_step [OF le] Inr date_range_unfold_Inr [OF le Inr] handle_date_visited)
    qed
  qed
qed

lemma daily_loop_outcome:
  "fst (daily_loop self env al e cur s) = fst (daily_loop self' env' al' e cur s')"
proof (induction cur e arbitrary: s s' rule: date_range.induct)
  case (1 cur end_date)
  show ?case
  proof (cases "cur \<le> end_date")
    case False
    then show ?thesis by (simp add: daily_loop_done)
  next
    case le: True
    show ?thesis
    proof (cases "add_one_day cur")
      case (Inl x)
      then show ?thesis by (simp add: daily_loop_step [OF le])
    next
      case (Inr n)
      show ?thesis
        using "1.IH" [OF le Inr]
        by (simp add: daily_loop_step [OF le] Inr)
    qed
  qed
qed

lemma run_unfold:
  assumes "get_start_and_end_dates now sd ed fd = Inr (Some (start, end_d))"
    and "sd \<noteq> None \<or> ed \<noteq> None \<or> fd \<noteq> None" and "\<not> (ed \<noteq> None \<and> fd \<noteq> None)"
  shows "process_and_archive_daily_data self env now sd ed fd s =
           daily_loop self env (get_already_downloaded_dates (fs s)) end_d start s"
  using assms by (simp add: process_and_archive_daily_data_def)

lemma daily_loop_outcome_cases:
  "fst (daily_loop self env al e cur s) = None \<or>
   fst (daily_loop self env al e cur s) = Some OverflowError"
proof (induction cur e arbitrary: s rule: date_range.induct)
  case (1 cur end_date)
  show ?case
  proof (cases "cur \<le> end_date")
    case False
    then show ?thesis by (simp add: daily_loop_done)
  next
    case le: True
    show ?thesis
    proof (cases "add_one_day cur")
      case (Inl x)
      then show ?thesis using add_one_day_error [OF Inl] by (simp add: daily_loop_step [OF le])
    next
      case (Inr n)
      show ?thesis
        using "1.IH" [OF le Inr, of "snd (handle_date self env al cur s)"]
        by (simp add: daily_loop_step [OF le] Inr)
    qed
  qed
qed

lemma run_rejects_iff:
  "is_assertion_error (fst (process_and_archive_daily_data self env now sd ed fd s)) \<longleftrightarrow>
     (sd = None \<and> ed = None \<and> fd = None) \<or> (ed \<noteq> None \<and> fd \<noteq> None)"
proof (cases "(sd = None \<and> ed = None \<and> fd = None) \<or> (ed \<noteq> None \<and> fd \<noteq> None)")
  case True
  then show ?thesis by (auto simp: process_and_archive_daily_data_def)
next
  case False
  show ?thesis
  proof (cases "get_start_and_end_dates now sd ed fd")
    case (Inl e)
    then have "e = OverflowError"
      by (auto simp: get_start_and_end_dates_def split: sum.splits option.splits
               dest: sub_days_error)
    then show ?thesis using False Inl by (auto simp: process_and_archive_daily_data_def)
  next
    case (Inr p)
    show ?thesis
    proof (cases p)
      case None
      then show ?thesis using False Inr by (auto simp: process_and_archive_daily_data_def)
    next
      case (Some q)
      obtain a b where q: "q = (a, b)" by (cases q)
      have "process_and_archive_daily_data self env now sd ed fd s =
              daily_loop self env (get_already_downloaded_dates (fs s)) b a s"
        using False Inr Some q by (intro run_unfold) auto
      then show ?thesis
        using False daily_loop_outcome_cases [of self env "get_already_downloaded_dates (fs s)" b a s]
        by auto
    qed
  qed
qed

lemma run_rejected_state:
  "is_assertion_error (fst (process_and_archive_daily_data self env now sd ed fd s)) \<Longrightarrow>
   snd (process_and_archive_daily_data self env now sd ed fd s) = s"
  using run_rejects_iff [of self env now sd ed fd s]
  by (auto simp: process_and_archive_daily_data_def)

lemma handle_date_debug:
  "debug self \<Longrightarrow> cur \<notin> set al \<or> redownload self \<Longrightarrow>
   handle_date self env al cur s = (None, s\<lparr>trace := trace s @ [Processed cur, Archived cur]\<rparr>)"
  by (auto simp: handle_date_def download_debug process_data_for_date_def archive_data_for_date_def)

lemma handle_date_skip:
  "cur \<in> set al \<Longrightarrow> \<not> redownload self \<Longrightarrow>
   handle_date self env al cur s = (None, s\<lparr>trace := trace s @ [Skipped cur]\<rparr>)"
  by (simp add: handle_date_def)

lemma daily_loop_debug_empty:
  assumes "debug self"
  shows "snd (daily_loop self env [] e cur s) =
           s\<lparr>trace := trace s @ concat (map (\<lambda>d. [Processed d, Archived d]) (date_range cur e))\<rparr>"
proof (induction cur e arbitrary: s rule: date_range.induct)
  case (1 cur end_date)
  show ?case
  proof (cases "cur \<le> end_date")
    case False
    then show ?thesis by (simp add: daily_loop_done date_range_empty)
  next
    case le: True
    have h: "handle_date self env [] cur s = (None, s\<lparr>trace := trace s @ [Processed cur, Archived cur]\<rparr>)"
      by (rule handle_date_debug [OF assms]) simp
    show ?thesis
    proof (cases "add_one_day cur")
      case (Inl x)
      then show ?thesis
        by (simp add: daily_loop_step [OF le] date_range_unfold_Inl [OF le Inl] h)
    next
      case (Inr n)
      show ?thesis
        by (simp add: daily_loop_step [OF le] Inr date_range_unfold_Inr [OF le Inr] h
              "1.IH" [OF le Inr])
    qed
  qed
qed

lemma daily_loop_all_present:
  assumes "\<not> redownload self"
  shows "set (date_range cur e) \<subseteq> set al \<Longrightarrow>
         snd (daily_loop self env al e cur s) =
           s\<lparr>trace := trace s @ map Skipped (date_range cur e)\<rparr>"
proof (induction cur e arbitrary: s rule: date_range.induct)
  case (1 cur end_date)
  show ?case
  proof (cases "cur \<le> end_date")
    case False
    then show ?thesis by (simp add: daily_loop_done date_range_empty)
  next
    case le: True
    show ?thesis
    proof (cases "add_one_day cur")
      case (Inl x)
      have "cur \<in> set al" using "1.prems" by (simp add: date_range_unfold_Inl [OF le Inl])
      then show ?thesis
        by (simp add: daily_loop_step [OF le] Inl date_range_unfold_Inl [OF le Inl]
              handle_date_skip [OF _ assms])
    next
      case (Inr n)
      have c: "cur \<in> set al" and rest: "set (date_range n end_date) \<subseteq> set al"
        using "1.prems" by (simp_all add: date_range_unfold_Inr [OF le Inr])
      show ?thesis
        by (simp add: daily_loop_step [OF le] Inr date_range_unfold_Inr [OF le Inr]
              handle_date_skip [OF c assms] "1.IH" [OF le Inr rest])
    qed
  qed
qed

lemma retrieve_calls_Skipped: "retrieve_calls (map Skipped ds) = []"
  by (induction ds) (simp_all add: retrieve_calls_def)

lemma retrieve_calls_debug:
  "retrieve_calls (concat (map (\<lambda>d. [Processed d, Archived d]) ds)) = []"
  by (induction ds) (simp_all add: retrieve_calls_def)

lemmas run_eval =
  call_process_and_archive_daily_data_def process_and_archive_daily_data_def
  get_start_and_end_dates_def get_already_downloaded_dates_def List.map_filter_simps
  daily_loop_step daily_loop_done handle_date_def
  process_data_for_date_def archive_data_for_date_def

lemmas download_eval =
  download_data_for_date_def validate_default download_attempt_def cleanup_def
  shutil_move_def tmp_prefix_def path_join_def digit_char_def update_conv'
  strptime_ymd_def split_dot_first_def digit_val_def year_digits_def Let_def

section \<open>Properties of the file names and of the listing\<close>

lemma mod_10_cases:
  "(n::nat) mod 10 = 0 \<or> n mod 10 = 1 \<or> n mod 10 = 2 \<or> n mod 10 = 3 \<or> n mod 10 = 4 \<or>
   n mod 10 = 5 \<or> n mod 10 = 6 \<or> n mod 10 = 7 \<or> n mod 10 = 8 \<or> n mod 10 = 9"
  by arith

lemma digit_val_digit_char: "digit_val (digit_char n) = Some (n mod 10)"
proof -
  have "digit_val (''0123456789'' ! k) = Some k"
    if "k = 0 \<or> k = 1 \<or> k = 2 \<or> k = 3 \<or> k = 4 \<or> k = 5 \<or> k = 6 \<or> k = 7 \<or> k = 8 \<or> k = 9"
    for k :: nat
    using that by (elim disjE) (simp_all add: digit_val_def)
  then show ?thesis using mod_10_cases [of n] by (simp add: digit_char_def)
qed

lemma digit_char_not_sep:
  "digit_char n \<noteq> CHR ''-''" "digit_char n \<noteq> CHR ''.''" "digit_char n \<noteq> CHR '' ''"
  "digit_char n \<noteq> CHR ''e''"
proof -
  have "''0123456789'' ! k \<noteq> CHR ''-'' \<and> ''0123456789'' ! k \<noteq> CHR ''.'' \<and>
        ''0123456789'' ! k \<noteq> CHR '' '' \<and> ''0123456789'' ! k \<noteq> CHR ''e''"
    if "k = 0 \<or> k = 1 \<or> k = 2 \<or> k = 3 \<or> k = 4 \<or> k = 5 \<or> k = 6 \<or> k = 7 \<or> k = 8 \<or> k = 9"
    for k :: nat
    using that by (elim disjE) simp_all
  then show "digit_char n \<noteq> CHR ''-''" "digit_char n \<noteq> CHR ''.''" "digit_char n \<noteq> CHR '' ''"
    "digit_char n \<noteq> CHR ''e''"
    using mod_10_cases [of n] by (simp_all add: digit_char_def)
qed

lemma four_digits:
  assumes "(y::nat) \<le> 9999"
  shows "1000 * (y div 1000) + 100 * (y div 100 mod 10) + 10 * (y div 10 mod 10) + y mod 10 = y"
    and "y div 1000 mod 10 = y div 1000"
proof -
  define q1 where "q1 = y div 10"
  define q2 where "q2 = y div 100"
  define q3 where "q3 = y div 1000"
  define r0 where "r0 = y mod 10"
  define r1 where "r1 = q1 mod 10"
  define r2 where "r2 = q2 mod 10"
  have q2: "q2 = q1 div 10" by (simp add: q1_def q2_def div_mult2_eq)
  have q3: "q3 = q2 div 10" by (simp add: q2_def q3_def div_mult2_eq)
  have a: "y = 10 * q1 + r0" by (simp add: q1_def r0_def)
  have b: "q1 = 10 * q2 + r1" by (simp add: q2 r1_def)
  have c: "q2 = 10 * q3 + r2" by (simp add: q3 r2_def)
  have "q3 < 10" using assms by (simp add: q3_def)
  then have d: "q3 mod 10 = q3" by simp
  have "1000 * q3 + 100 * r2 + 10 * r1 + r0 = y"
    using a b c by linarith
  then show "1000 * (y div 1000) + 100 * (y div 100 mod 10) + 10 * (y div 10 mod 10) + y mod 10 = y"
    by (simp add: q1_def q2_def q3_def r0_def r1_def r2_def)
  show "y div 1000 mod 10 = y div 1000"
    using d by (simp add: q3_def)
qed

lemma two_digits:
  assumes "(m::nat) \<le> 99"
  shows "m div 10 mod 10 = m div 10" "10 * (m div 10) + m mod 10 = m"
proof -
  have "m div 10 < 10" using assms by (simp add: less_mult_imp_div_less)
  then show "m div 10 mod 10 = m div 10" by (rule mod_less)
  show "10 * (m div 10) + m mod 10 = m" by (rule mult_div_mod_eq)
qed

lemma parse_year_strftime:
  assumes "1000 \<le> y" "y \<le> 9999"
  shows "parse_year (year_digits y) = Some y"
  using assms(1) by (simp add: year_digits_def digit_val_digit_char four_digits [OF assms(2)])

lemma parse_month_strftime:
  assumes "1 \<le> m" "m \<le> 12"
  shows "parse_month [digit_char (m div 10), digit_char m] = Some m"
proof -
  have le: "m \<le> 99" using assms by simp
  define q where "q = m div 10"
  define r where "r = m mod 10"
  have qr: "q = m div 10" "r = m mod 10" "m = 10 * q + r" "r < 10"
    by (simp_all add: q_def r_def)
  have "(q = 1 \<and> r \<le> 2) \<or> (q = 0 \<and> 1 \<le> r)"
    using assms qr(3,4) by linarith
  then have c: "(m div 10 = 1 \<and> m mod 10 \<le> 2) \<or> (m div 10 = 0 \<and> 1 \<le> m mod 10)"
    unfolding qr(1,2) .
  show ?thesis using c by (auto simp: digit_val_digit_char two_digits [OF le])
qed

lemma parse_day_strftime:
  assumes "1 \<le> d" "d \<le> 31"
  shows "parse_day [digit_char (d div 10), digit_char d] = Some d"
proof -
  have le: "d \<le> 99" using assms by simp
  define q where "q = d div 10"
  define r where "r = d mod 10"
  have qr: "q = d div 10" "r = d mod 10" "d = 10 * q + r" "r < 10"
    by (simp_all add: q_def r_def)
  have "(q = 3 \<and> r \<le> 1) \<or> q = 1 \<or> q = 2 \<or> (q = 0 \<and> 1 \<le> r)"
    using assms qr(3,4) by linarith
  then have c: "(d div 10 = 3 \<and> d mod 10 \<le> 1) \<or> d div 10 = 1 \<or> d div 10 = 2 \<or>
           (d div 10 = 0 \<and> 1 \<le> d mod 10)"
    unfolding qr(1,2) .
  show ?thesis using c by (auto simp: digit_val_digit_char digit_char_not_sep two_digits [OF le])
qed

lemma year_digits_four:
  "1000 \<le> y \<Longrightarrow>
   year_digits y = [digit_char (y div 1000), digit_char (y div 100), digit_char (y div 10),
                    digit_char y]"
  by (simp add: year_digits_def)

lemma takeWhile_year_digits:
  "takeWhile (\<lambda>x. x \<noteq> c) (year_digits y @ rest) = year_digits y @ takeWhile (\<lambda>x. x \<noteq> c) rest"
  if "\<And>n. digit_char n \<noteq> c"
  using that by (simp add: year_digits_def)

lemma split_dot_first_strftime: "split_dot_first (strftime_ymd d @ ''.nc'') = strftime_ymd d"
proof -
  obtain y m dd where d: "d = (y, m, dd)" by (cases d)
  show ?thesis
    unfolding d
    by (simp add: split_dot_first_def takeWhile_year_digits digit_char_not_sep)
qed

lemma strptime_strftime:
  assumes "valid_date d" "1000 \<le> fst d"
  shows "strptime_ymd (strftime_ymd d) = Some d"
proof -
  obtain y m dd where d: "d = (y, m, dd)" by (cases d)
  have v: "1000 \<le> y" "y \<le> 9999" "1 \<le> m" "m \<le> 12" "1 \<le> dd" "dd \<le> 31"
    using assms days_in_month_le_31 [of y m] unfolding d by (auto simp: MAXYEAR_def)
  have py: "parse_year [digit_char (y div 1000), digit_char (y div 100), digit_char (y div 10),
                        digit_char y] = Some y"
    using parse_year_strftime [OF v(1,2)] by (simp only: year_digits_four [OF v(1)])
  show ?thesis
    using assms(1) unfolding d
    by (simp add: strptime_ymd_def year_digits_four [OF v(1)] digit_char_not_sep py
          parse_month_strftime [OF v(3,4)] parse_day_strftime [OF v(5,6)]
          del: parse_year.simps parse_month.simps parse_day.simps valid_date.simps)
qed

lemma strptime_output_file:
  assumes "valid_date d" "1000 \<le> fst d"
  shows "strptime_ymd (split_dot_first (strftime_ymd d @ ''.nc'')) = Some d"
  by (simp only: split_dot_first_strftime strptime_strftime [OF assms])

lemma tmp_not_final: "tmp_prefix @ suffix \<noteq> strftime_ymd d @ ''.nc''"
proof -
  obtain y m dd where d: "d = (y, m, dd)" by (cases d)
  have "hd (strftime_ymd d @ ''.nc'') \<noteq> CHR ''e''"
    unfolding d by (simp add: year_digits_def digit_char_not_sep)
  moreover have "hd (tmp_prefix @ suffix) = CHR ''e''"
    by (simp add: tmp_prefix_def)
  ultimately show ?thesis by metis
qed

lemma present_Cons:
  "present ((k, e) # dir) d \<longleftrightarrow>
     (case e of File n \<Rightarrow> strptime_ymd (split_dot_first k) = Some d | Dir files \<Rightarrow> False) \<or>
     present dir d"
  by (simp add: present_def)

lemma get_already_downloaded_dates_Cons:
  "get_already_downloaded_dates ((k, e) # dir) =
     (case e of
        File n \<Rightarrow> (case strptime_ymd (split_dot_first k) of
                     None \<Rightarrow> get_already_downloaded_dates dir
                   | Some d \<Rightarrow> d # get_already_downloaded_dates dir)
      | Dir files \<Rightarrow> get_already_downloaded_dates dir)"
  by (simp add: get_already_downloaded_dates_def split: entry.splits option.splits)

lemma present_iff: "d \<in> set (get_already_downloaded_dates dir) \<longleftrightarrow> present dir d"
proof (induction dir)
  case Nil
  then show ?case
    by (simp add: get_already_downloaded_dates_def present_def)
next
  case (Cons p dir)
  obtain k e where p: "p = (k, e)" by (cases p)
  show ?case
  proof (cases e)
    case (Dir files)
    then show ?thesis
      using Cons by (simp add: p get_already_downloaded_dates_Cons present_Cons)
  next
    case (File n)
    then show ?thesis
      using Cons
      by (cases "strptime_ymd (split_dot_first k)")
         (auto simp: p get_already_downloaded_dates_Cons present_Cons)
  qed
qed

lemma present_update:
  "present dir x \<Longrightarrow> present (AList.update k (File n) dir) x"
proof (induction dir)
  case Nil
  then show ?case by (simp add: present_def)
next
  case (Cons p dir)
  obtain k' e where p: "p = (k', e)" by (cases p)
  show ?case
    using Cons unfolding p
    by (cases "k' = k") (auto simp: present_Cons split: entry.splits)
qed

lemma present_update_new:
  "strptime_ymd (split_dot_first k) = Some d \<Longrightarrow> present (AList.update k (File n) dir) d"
proof (induction dir)
  case Nil
  then show ?case by (simp add: present_def)
next
  case (Cons p dir)
  obtain k' e where p: "p = (k', e)" by (cases p)
  show ?case
    using Cons unfolding p
    by (cases "k' = k") (auto simp: present_Cons)
qed

lemma present_output_file:
  assumes "valid_date d" "1000 \<le> fst d"
    and "map_of dir (strftime_ymd d @ ''.nc'') = Some (File n)"
  shows "present dir d"
proof -
  have m: "(strftime_ymd d @ ''.nc'', File n) \<in> set dir"
    by (rule map_of_SomeD [OF assms(3)])
  have p: "strptime_ymd (split_dot_first (strftime_ymd d @ ''.nc'')) = Some d"
    by (rule strptime_output_file [OF assms(1,2)])
  show ?thesis
    unfolding present_def using m p by (intro bexI [of _ "(strftime_ymd d @ ''.nc'', File n)"]) simp_all
qed

section \<open>Properties of a run that finds or leaves every date present\<close>

lemma download_success:
  assumes nd: "\<not> debug self" and cs: "clean_success a (fs s) d"
  shows "\<exists>n. fs (snd (download_data_for_date self a d None s))
               = AList.update (strftime_ymd d @ ''.nc'') (File n) (fs s)"
proof -
  let ?fname = "strftime_ymd d @ ''.nc''"
  from cs obtain suffix n where m: "mkdtemp_result a = Inr suffix"
    and w: "retrieve_written a = Some n" "0 < n"
    and r: "retrieve_raised a = None" "move_raised a = None" "rmtree_raised a = None"
    and fresh: "map_of (fs s) (tmp_prefix @ suffix) = None"
    and nodir: "\<And>files. map_of (fs s) ?fname \<noteq> Some (Dir files)"
    by (auto simp: clean_success_def successful_def split: sum.splits option.splits entry.splits)
  let ?tmp = "tmp_prefix @ suffix"
  have ne: "?tmp \<noteq> ?fname" by (rule tmp_not_final)
  have look: "map_of (fs s @ [(?tmp, Dir [(?fname, n)])]) ?fname = map_of (fs s) ?fname"
    using ne by (simp add: map_add_def split: option.splits)
  have mv: "shutil_move a ?tmp ?fname n (fs s @ [(?tmp, Dir [(?fname, n)])])
          = Inr (AList.update ?tmp (Dir [])
                   (AList.update ?fname (File n) (fs s @ [(?tmp, Dir [(?fname, n)])])))"
    using nodir r(2)
    by (simp add: shutil_move_def look del: map_of_append split: option.splits entry.splits)
  have da: "download_attempt self a d s =
      (Inr (Some (path_join (data_dir self) ?fname)), Some ?tmp,
       s\<lparr>fs := AList.update ?tmp (Dir [])
                   (AList.update ?fname (File n) (fs s @ [(?tmp, Dir [(?fname, n)])])),
          trace := trace s @ [Retrieve d]\<rparr>)"
    using m w r fresh by (simp add: download_attempt_def Let_def mv)
  have del: "AList.delete ?tmp (AList.update ?tmp (Dir [])
                   (AList.update ?fname (File n) (fs s @ [(?tmp, Dir [(?fname, n)])])))
             = AList.update ?fname (File n) (fs s)"
  proof -
    have "AList.delete ?tmp (AList.update ?tmp (Dir [])
                   (AList.update ?fname (File n) (fs s @ [(?tmp, Dir [(?fname, n)])])))
          = AList.delete ?tmp (AList.update ?fname (File n) (fs s @ [(?tmp, Dir [(?fname, n)])]))"
      by (rule delete_update_same)
    also have "\<dots> = AList.update ?fname (File n)
                        (AList.delete ?tmp (fs s @ [(?tmp, Dir [(?fname, n)])]))"
      using ne by (intro delete_update) simp
    also have "AList.delete ?tmp (fs s @ [(?tmp, Dir [(?fname, n)])]) = fs s"
      by (rule delete_append_fresh [OF fresh])
    finally show ?thesis .
  qed
  have "fs (snd (download_data_for_date self a d None s)) = AList.update ?fname (File n) (fs s)"
    using r(3) by (simp add: download_default_unfold [OF nd] da cleanup_def update_conv' del)
  then show ?thesis by blast
qed

lemma clean_success_update:
  assumes "clean_success a dir d"
  shows "clean_success a (AList.update (strftime_ymd d' @ ''.nc'') (File n) dir) d"
proof -
  have "map_of (AList.update (strftime_ymd d' @ ''.nc'') (File n) dir) (tmp_prefix @ suffix)
          = map_of dir (tmp_prefix @ suffix)" for suffix
    using tmp_not_final [of suffix d'] by (simp add: update_conv')
  then show ?thesis
    using assms
    by (auto simp: clean_success_def update_conv' split: sum.splits option.splits entry.splits)
qed

lemma handle_date_download_fs:
  assumes "cur \<notin> set al \<or> redownload self"
  shows "fs (snd (handle_date self env al cur s))
           = fs (snd (download_data_for_date self (env cur) cur None s))"
proof -
  obtain r where "fst (download_data_for_date self (env cur) cur None s) = Inr r"
    using download_never_raises by blast
  then show ?thesis
    using assms
    by (cases "download_data_for_date self (env cur) cur None s")
       (auto simp: handle_date_def process_data_for_date_def archive_data_for_date_def)
qed

lemma handle_date_first_run:
  assumes nd: "\<not> debug self" and nr: "\<not> redownload self"
    and v: "valid_date cur" and y: "1000 \<le> fst cur"
    and al: "\<forall>x \<in> set al. present (fs s) x"
    and cs: "cur \<notin> set al \<longrightarrow> clean_success (env cur) (fs s) cur"
  shows "(\<forall>x. present (fs s) x \<longrightarrow> present (fs (snd (handle_date self env al cur s))) x) \<and>
         present (fs (snd (handle_date self env al cur s))) cur \<and>
         (\<forall>a d. clean_success a (fs s) d \<longrightarrow>
                 clean_success a (fs (snd (handle_date self env al cur s))) d)"
proof (cases "cur \<in> set al")
  case True
  then have "fs (snd (handle_date self env al cur s)) = fs s"
    using nr by (simp add: handle_date_skip)
  then show ?thesis using True al by simp
next
  case False
  then have "clean_success (env cur) (fs s) cur" using cs by simp
  then obtain n where "fs (snd (download_data_for_date self (env cur) cur None s))
               = AList.update (strftime_ymd cur @ ''.nc'') (File n) (fs s)"
    using download_success [OF nd] by blast
  then have f: "fs (snd (handle_date self env al cur s))
               = AList.update (strftime_ymd cur @ ''.nc'') (File n) (fs s)"
    using False by (simp add: handle_date_download_fs)
  show ?thesis
    unfolding f
    using present_update present_update_new [OF strptime_output_file [OF v y]]
      clean_success_update
    by blast
qed

lemma daily_loop_first_run:
  assumes nd: "\<not> debug self" and nr: "\<not> redownload self"
  shows "valid_date cur \<Longrightarrow>
         \<forall>d \<in> set (date_range cur e). 1000 \<le> fst d \<Longrightarrow>
         \<forall>x \<in> set al. present (fs s) x \<Longrightarrow>
         \<forall>d \<in> set (date_range cur e). d \<notin> set al \<longrightarrow> clean_success (env d) (fs s) d \<Longrightarrow>
         (\<forall>x. present (fs s) x \<longrightarrow> present (fs (snd (daily_loop self env al e cur s))) x) \<and>
         (\<forall>d \<in> set (date_range cur e). present (fs (snd (daily_loop self env al e cur s))) d)"
proof (induction cur e arbitrary: s rule: date_range.induct)
  case (1 cur end_date)
  show ?case
  proof (cases "cur \<le> end_date")
    case False
    then show ?thesis by (simp add: daily_loop_done date_range_empty)
  next
    case le: True
    let ?s1 = "snd (handle_date self env al cur s)"
    have mem: "cur \<in> set (date_range cur end_date)"
      using le by (subst date_range.simps) simp
    have h: "(\<forall>x. present (fs s) x \<longrightarrow> present (fs ?s1) x) \<and> present (fs ?s1) cur \<and>
         (\<forall>a d. clean_success a (fs s) d \<longrightarrow> clean_success a (fs ?s1) d)"
      using "1.prems" mem by (intro handle_date_first_run [OF nd nr]) auto
    show ?thesis
    proof (cases "add_one_day cur")
      case (Inl x)
      then show ?thesis
        using h by (simp add: daily_loop_step [OF le] date_range_unfold_Inl [OF le Inl])
    next
      case (Inr n)
      have unf: "date_range cur end_date = cur # date_range n end_date"
        by (rule date_range_unfold_Inr [OF le Inr])
      have vn: "valid_date n" by (rule add_one_day_valid [OF "1.prems"(1) Inr])
      have yn: "\<forall>d \<in> set (date_range n end_date). 1000 \<le> fst d"
        using "1.prems"(2) by (simp add: unf)
      have aln: "\<forall>x \<in> set al. present (fs ?s1) x"
        using "1.prems"(3) h by blast
      have csn: "\<forall>d \<in> set (date_range n end_date). d \<notin> set al \<longrightarrow> clean_success (env d) (fs ?s1) d"
      proof (intro ballI impI)
        fix d
        assume "d \<in> set (date_range n end_date)" "d \<notin> set al"
        then have "clean_success (env d) (fs s) d"
          using "1.prems"(4) unfolding unf by simp
        then show "clean_success (env d) (fs ?s1) d" using h by blast
      qed
      note IH = "1.IH" [OF le Inr vn yn aln csn]
      have loop: "daily_loop self env al end_date cur s = daily_loop self env al end_date n ?s1"
        by (simp add: daily_loop_step [OF le] Inr)
      have "\<forall>x. present (fs s) x \<longrightarrow> present (fs (snd (daily_loop self env al end_date n ?s1))) x"
        using IH h by blast
      moreover have "\<forall>d \<in> set (cur # date_range n end_date).
          present (fs (snd (daily_loop self env al end_date n ?s1))) d"
      proof (intro ballI)
        fix d
        assume "d \<in> set (cur # date_range n end_date)"
        then consider "d = cur" | "d \<in> set (date_range n end_date)" by auto
        then show "present (fs (snd (daily_loop self env al end_date n ?s1))) d"
          using IH h by cases blast+
      qed
      ultimately show ?thesis
        unfolding loop unf by blast
    qed
  qed
qed

lemma fst_mono_date: "(a::date) \<le> b \<Longrightarrow> fst a \<le> fst b"
  by (cases a; cases b) auto

lemma handle_date_debug_any:
  assumes "debug self"
  shows "fs (snd (handle_date self env al cur s)) = fs s \<and>
         retrieve_calls (trace (snd (handle_date self env al cur s))) = retrieve_calls (trace s)"
  using assms
  by (simp add: handle_date_def download_debug process_data_for_date_def
        archive_data_for_date_def retrieve_calls_def)

lemma daily_loop_debug_any:
  assumes "debug self"
  shows "fs (snd (daily_loop self env al e cur s)) = fs s \<and>
         retrieve_calls (trace (snd (daily_loop self env al e cur s))) = retrieve_calls (trace s)"
proof (induction cur e arbitrary: s rule: date_range.induct)
  case (1 cur end_date)
  show ?case
  proof (cases "cur \<le> end_date")
    case False
    then show ?thesis by (simp add: daily_loop_done)
  next
    case le: True
    note h = handle_date_debug_any [OF assms, of env al cur s]
    show ?thesis
    proof (cases "add_one_day cur")
      case (Inl x)
      then show ?thesis using h by (simp add: daily_loop_step [OF le])
    next
      case (Inr n)
      show ?thesis
        using "1.IH" [OF le Inr, of "snd (handle_date self env al cur s)"] h
        by (simp add: daily_loop_step [OF le] Inr)
    qed
  qed
qed

lemma run_all_present:
  assumes "\<not> redownload self"
    and "valid_date start"
    and "get_start_and_end_dates now sd ed fd = Inr (Some (start, end_d))"
    and "sd \<noteq> None \<or> ed \<noteq> None \<or> fd \<noteq> None"
    and "\<not> (ed \<noteq> None \<and> fd \<noteq> None)"
    and "\<forall>d. valid_date d \<and> start \<le> d \<and> d \<le> end_d \<longrightarrow> present (fs s) d"
  shows "snd (process_and_archive_daily_data self env now sd ed fd s)
           = s\<lparr>trace := trace s @ map Skipped (date_range start end_d)\<rparr>"
proof -
  have u: "process_and_archive_daily_data self env now sd ed fd s =
           daily_loop self env (get_already_downloaded_dates (fs s)) end_d start s"
    by (rule run_unfold [OF assms(3,4,5)])
  have sub: "set (date_range start end_d) \<subseteq> set (get_already_downloaded_dates (fs s))"
  proof
    fix d
    assume "d \<in> set (date_range start end_d)"
    then have "valid_date d \<and> start \<le> d \<and> d \<le> end_d"
      by (simp add: date_range_set [OF assms(2)])
    then have "present (fs s) d" using assms(6) by blast
    then show "d \<in> set (get_already_downloaded_dates (fs s))"
      by (simp only: present_iff)
  qed
  show ?thesis
    by (simp add: u daily_loop_all_present [OF assms(1) sub])
qed

lemma first_run_makes_present:
  assumes "\<not> redownload self" and "\<not> debug self"
    and "valid_date start" and "1000 \<le> fst start"
    and "get_start_and_end_dates now sd ed fd = Inr (Some (start, end_d))"
    and "sd \<noteq> None \<or> ed \<noteq> None \<or> fd \<noteq> None"
    and "\<not> (ed \<noteq> None \<and> fd \<noteq> None)"
    and "\<forall>d. valid_date d \<and> start \<le> d \<and> d \<le> end_d \<and> \<not> present (fs s) d \<longrightarrow>
           clean_success (env d) (fs s) d"
  shows "\<forall>d. valid_date d \<and> start \<le> d \<and> d \<le> end_d \<longrightarrow>
           present (fs (snd (process_and_archive_daily_data self env now sd ed fd s))) d"
proof -
  let ?al = "get_already_downloaded_dates (fs s)"
  have u: "process_and_archive_daily_data self env now sd ed fd s =
           daily_loop self env ?al end_d start s"
    by (rule run_unfold [OF assms(5,6,7)])
  have r: "d \<in> set (date_range start end_d) \<longleftrightarrow> valid_date d \<and> start \<le> d \<and> d \<le> end_d" for d
    by (simp add: date_range_set [OF assms(3)])
  have y: "\<forall>d \<in> set (date_range start end_d). 1000 \<le> fst d"
  proof
    fix d
    assume "d \<in> set (date_range start end_d)"
    then have "start \<le> d" by (simp add: r)
    then have "fst start \<le> fst d" by (rule fst_mono_date)
    then show "1000 \<le> fst d" using assms(4) by simp
  qed
  have al: "\<forall>x \<in> set ?al. present (fs s) x"
    by (simp add: present_iff)
  have cs: "\<forall>d \<in> set (date_range start end_d). d \<notin> set ?al \<longrightarrow> clean_success (env d) (fs s) d"
    using assms(8) r present_iff by blast
  have "\<forall>d \<in> set (date_range start end_d).
          present (fs (snd (daily_loop self env ?al end_d start s))) d"
    using daily_loop_first_run [OF assms(2,1,3) y al cs] by blast
  then show ?thesis
    unfolding u using r by blast
qed

lemma run_debug_fs:
  assumes "debug self"
  shows "fs (snd (process_and_archive_daily_data self env now sd ed fd s)) = fs s \<and>
         retrieve_calls (trace (snd (process_and_archive_daily_data self env now sd ed fd s)))
           = retrieve_calls (trace s)"
  using daily_loop_debug_any [OF assms]
  by (simp add: process_and_archive_daily_data_def split: sum.splits option.splits prod.splits)

section \<open>The example inputs, evaluated\<close>

lemma example_resolution:
  "get_start_and_end_dates example_now (Some (2024, 12, 1)) (Some (2024, 12, 5)) None
     = Inr (Some ((2024, 12, 1), (2024, 12, 5)))"
  by (simp add: get_start_and_end_dates_def example_now_def date_eval)

lemma valid_2024_12_01: "valid_date (2024, 12, 1)"
  by (simp add: date_eval)

lemma sub_days_5_example: "sub_days (datetime_date example_now) 5 = Inr (2024, 12, 15)"
  by (simp add: example_now_def date_eval)

lemma valid_example_now: "valid_date (datetime_date example_now)"
  by (simp add: example_now_def date_eval)

lemma date_range_example:
  "date_range (2024, 12, 1) (2024, 12, 5) =
     [(2024, 12, 1), (2024, 12, 2), (2024, 12, 3), (2024, 12, 4), (2024, 12, 5)]"
  by (simp add: date_range.simps date_eval)

lemma example_resolution_two:
  "get_start_and_end_dates example_now (Some (2024, 12, 1)) (Some (2024, 12, 2)) None
     = Inr (Some ((2024, 12, 1), (2024, 12, 2)))"
  by (simp add: get_start_and_end_dates_def example_now_def date_eval)

lemma date_range_example_two:
  "date_range (2024, 12, 1) (2024, 12, 2) = [(2024, 12, 1), (2024, 12, 2)]"
  by (simp add: date_range.simps date_eval)

lemma first_run_failing:
  "snd (process_and_archive_daily_data example_pipeline (\<lambda>d. failing_attempt) example_now
          None None (Some (2024, 12, 1)) empty_state)
     = empty_state\<lparr>trace := [Retrieve (2024, 12, 1), Rmtree ''era5_download_k3v9x2ab'',
                              Processed (2024, 12, 1), Archived (2024, 12, 1)]\<rparr>"
  by (simp add: run_eval date_eval download_eval example_pipeline_def empty_state_def
        failing_attempt_def example_now_def del: One_nat_def)

lemma first_run_good:
  "fs (snd (process_and_archive_daily_data example_pipeline (\<lambda>d. good_attempt) example_now
          (Some (2024, 12, 1)) (Some (2024, 12, 2)) None empty_state))
     = [(''2024-12-01.nc'', File 1048576), (''2024-12-02.nc'', File 1048576)]"
  by (simp add: run_eval date_eval download_eval example_pipeline_def empty_state_def
        good_attempt_def example_now_def del: One_nat_def)

lemma first_run_good_calls:
  "retrieve_calls (trace (snd (process_and_archive_daily_data example_pipeline (\<lambda>d. good_attempt)
          example_now (Some (2024, 12, 1)) (Some (2024, 12, 2)) None empty_state)))
     = [Retrieve (2024, 12, 1), Retrieve (2024, 12, 2)]"
  by (simp add: run_eval date_eval download_eval example_pipeline_def empty_state_def
        good_attempt_def example_now_def retrieve_calls_def del: One_nat_def)

lemma good_attempt_clean: "clean_success good_attempt [] d"
  by (simp add: clean_success_def successful_def good_attempt_def)

lemma strftime_2024_12_01: "strftime_ymd (2024, 12, 1) @ ''.nc'' = ''2024-12-01.nc''"
  by (simp add: download_eval date_eval del: One_nat_def)

lemma no_area_config_fields:
  "(\<forall>k \<in> set required_keys. nonempty_list_field no_area_config k) \<and>
   \<not> truthy (get_area no_area_config)"
  by (simp add: required_keys_def nonempty_list_field_def no_area_config_def
        get_default_download_config_def get_area_def)

lemma empty_times_config_fields:
  "\<exists>k \<in> set required_keys. \<not> nonempty_list_field empty_times_config k"
  by (simp add: required_keys_def nonempty_list_field_def empty_times_config_def
        get_default_download_config_def)

lemma no_area_empty_times_config_fields:
  "\<not> (\<forall>k \<in> set required_keys. nonempty_list_field no_area_empty_times_config k) \<and>
   no_area_empty_times_config ''area'' = None"
  by (simp add: required_keys_def nonempty_list_field_def no_area_empty_times_config_def
        no_area_config_def get_default_download_config_def)

section \<open>The claims\<close>

text \<open>
  Claim C1. Whatever the collaborators do, a run whose range resolves to the pair
  \<open>(start, end_d)\<close> visits the dates \<open>vs\<close> with: \<open>vs\<close> holds exactly the calendar dates
  of the closed interval from \<open>start\<close> to \<open>end_d\<close>; it is strictly ascending, so no date
  is repeated; each of its dates is the day after the one before it, so none is left out;
  and it is empty when \<open>start\<close> is after \<open>end_d\<close>. A visit is an iteration of the loop,
  which prints that the date is skipped or that it is processed.
\<close>

theorem run_visits_closed_interval:
  assumes "valid_date start"
    and "get_start_and_end_dates now sd ed fd = Inr (Some (start, end_d))"
    and "sd \<noteq> None \<or> ed \<noteq> None \<or> fd \<noteq> None"
    and "\<not> (ed \<noteq> None \<and> fd \<noteq> None)"
  shows "\<exists>vs. visited (trace (snd (process_and_archive_daily_data self env now sd ed fd s)))
               = visited (trace s) @ vs \<and>
             set vs = {d. valid_date d \<and> start \<le> d \<and> d \<le> end_d} \<and>
             sorted_wrt (<) vs \<and>
             (\<forall>i. Suc i < length vs \<longrightarrow> add_one_day (vs ! i) = Inr (vs ! Suc i)) \<and>
             (end_d < start \<longrightarrow> vs = [])"
proof -
  have "visited (trace (snd (process_and_archive_daily_data self env now sd ed fd s)))
          = visited (trace s) @ date_range start end_d"
    by (simp add: run_unfold [OF assms(2,3,4)] daily_loop_visited)
  moreover have "set (date_range start end_d) = {d. valid_date d \<and> start \<le> d \<and> d \<le> end_d}"
    by (rule date_range_set [OF assms(1)])
  moreover have "sorted_wrt (<) (date_range start end_d)"
    by (rule date_range_ascending)
  moreover have "\<forall>i. Suc i < length (date_range start end_d) \<longrightarrow>
      add_one_day (date_range start end_d ! i) = Inr (date_range start end_d ! Suc i)"
    by (simp add: date_range_step)
  moreover have "end_d < start \<longrightarrow> date_range start end_d = []"
    by (simp add: date_range_empty)
  ultimately show ?thesis by blast
qed

theorem run_visits_closed_interval_witness:
  "\<exists>vs. visited (trace (snd (process_and_archive_daily_data example_pipeline (\<lambda>d. good_attempt)
             example_now (Some (2024, 12, 1)) (Some (2024, 12, 5)) None empty_state)))
               = visited (trace empty_state) @ vs \<and>
             set vs = {d. valid_date d \<and> (2024, 12, 1) \<le> d \<and> d \<le> (2024, 12, 5)} \<and>
             sorted_wrt (<) vs \<and>
             (\<forall>i. Suc i < length vs \<longrightarrow> add_one_day (vs ! i) = Inr (vs ! Suc i)) \<and>
             ((2024, 12, 5) < ((2024, 12, 1)::date) \<longrightarrow> vs = [])"
  by (rule run_visits_closed_interval [OF valid_2024_12_01 example_resolution]) simp_all

text \<open>
  Claim C2. With \<open>latest\<close> the date five days before the date of the clock:
  \<^verbatim>\<open>fixed_date\<close> alone gives the pair \<open>(f, f)\<close>; \<^verbatim>\<open>start_date\<close> alone gives
  \<open>(sd, latest)\<close>; \<^verbatim>\<open>end_date\<close> alone gives \<open>(1940-01-01, ed)\<close>; both
  \<^verbatim>\<open>start_date\<close> and \<^verbatim>\<open>end_date\<close> give \<open>(sd, ed)\<close>. The date of the clock is
  its reading without the time of day, and \<open>latest\<close> is five calendar days before it:
  adding five days to \<open>latest\<close> gives that date back.
\<close>

theorem date_range_resolution:
  assumes "sub_days (datetime_date now) 5 = Inr latest"
  shows "get_start_and_end_dates now None None (Some f) = Inr (Some (f, f)) \<and>
         get_start_and_end_dates now (Some sd) None None = Inr (Some (sd, latest)) \<and>
         get_start_and_end_dates now None (Some ed) None = Inr (Some ((1940, 1, 1), ed)) \<and>
         get_start_and_end_dates now (Some sd) (Some ed) None = Inr (Some (sd, ed)) \<and>
         datetime_date (today, seconds) = today \<and>
         (valid_date (datetime_date now) \<longrightarrow>
            valid_date latest \<and> add_days latest 5 = Inr (datetime_date now))"
  using assms sub_days_inverse [of "datetime_date now" 5 latest]
  by (simp add: get_start_and_end_dates_def datetime_date_def)

theorem date_range_resolution_witness:
  "get_start_and_end_dates example_now None None (Some (2024, 12, 3))
     = Inr (Some ((2024, 12, 3), (2024, 12, 3))) \<and>
   get_start_and_end_dates example_now (Some (2024, 12, 1)) None None
     = Inr (Some ((2024, 12, 1), (2024, 12, 15))) \<and>
   get_start_and_end_dates example_now None (Some (2024, 12, 5)) None
     = Inr (Some ((1940, 1, 1), (2024, 12, 5))) \<and>
   get_start_and_end_dates example_now (Some (2024, 12, 1)) (Some (2024, 12, 5)) None
     = Inr (Some ((2024, 12, 1), (2024, 12, 5))) \<and>
   datetime_date ((2024, 12, 20), 43200) = (2024, 12, 20) \<and>
   valid_date (2024, 12, 15) \<and> add_days (2024, 12, 15) 5 = Inr (datetime_date example_now)"
  using date_range_resolution [OF sub_days_5_example, of "(2024, 12, 3)" "(2024, 12, 1)"
      "(2024, 12, 5)" "(2024, 12, 20)" 43200] valid_example_now
  by (simp add: datetime_date_def)

text \<open>
  Claim C3 at a range that ends on the last date of the calendar. The date 9999-12-31 is
  handled like any other, and then \<^verbatim>\<open>current_date += timedelta(days=1)\<close> raises
  \<^verbatim>\<open>OverflowError\<close>, which no handler catches: the run ends with an exception that is
  not the \<^verbatim>\<open>AssertionError\<close> of the date range contract. (That no failure of a download
  reaches the loop is \<open>download_never_raises\<close>; that the loop visits every date of the
  range whatever the downloads do is \<open>daily_loop_visited\<close>.)
\<close>

theorem last_date_run_overflows:
  "fst (process_and_archive_daily_data self env example_now sd None (Some (9999, 12, 31)) s)
     = Some OverflowError \<and>
   visited (trace (snd (process_and_archive_daily_data self env example_now sd None
                          (Some (9999, 12, 31)) s)))
     = visited (trace s) @ [(9999, 12, 31)]"
proof -
  have r: "get_start_and_end_dates example_now sd None (Some (9999, 12, 31))
             = Inr (Some ((9999, 12, 31), (9999, 12, 31)))"
    by (simp add: get_start_and_end_dates_def example_now_def date_eval)
  have u: "process_and_archive_daily_data self env example_now sd None (Some (9999, 12, 31)) s =
           daily_loop self env (get_already_downloaded_dates (fs s)) (9999, 12, 31) (9999, 12, 31) s"
    by (rule run_unfold [OF r]) simp_all
  have o: "add_one_day (9999, 12, 31) = Inl OverflowError"
    by (simp add: date_eval)
  have "fst (daily_loop self env (get_already_downloaded_dates (fs s))
              (9999, 12, 31) (9999, 12, 31) s) = Some OverflowError"
    by (simp add: daily_loop_step o del: add_one_day.simps)
  then show ?thesis
    by (simp add: u daily_loop_visited date_range_single)
qed

theorem last_date_run_overflows_witness:
  "fst (process_and_archive_daily_data example_pipeline (\<lambda>d. good_attempt) example_now None None
          (Some (9999, 12, 31)) empty_state)
     = Some OverflowError \<and>
   visited (trace (snd (process_and_archive_daily_data example_pipeline (\<lambda>d. good_attempt)
                          example_now None None (Some (9999, 12, 31)) empty_state)))
     = [(9999, 12, 31)]"
  using last_date_run_overflows [of example_pipeline "\<lambda>d. good_attempt" None empty_state]
  by (simp add: empty_state_def visited_def)

text \<open>
  Claim C4, as stated, fails on the exit path on which \<^verbatim>\<open>shutil.rmtree\<close> raises. The
  client returns without leaving a file and the removal of the temporary directory
  fails (\<open>stuck_cleanup_attempt\<close>): the call returns \<open>None\<close>, its last step is the call of
  \<^verbatim>\<open>rmtree\<close>, and the temporary directory is still in the output directory afterwards.
  The handler of the \<^verbatim>\<open>finally\<close> block logs the failure as a warning.
\<close>

theorem failed_cleanup_leaves_temporary_directory:
  "\<not> debug example_pipeline \<and>
   fst (download_data_for_date example_pipeline stuck_cleanup_attempt (2024, 12, 1) None empty_state)
     = Inr None \<and>
   fs (snd (download_data_for_date example_pipeline stuck_cleanup_attempt (2024, 12, 1) None
              empty_state))
     = [(''era5_download_k3v9x2ab'', Dir [])] \<and>
   trace (snd (download_data_for_date example_pipeline stuck_cleanup_attempt (2024, 12, 1) None
              empty_state))
     = [Retrieve (2024, 12, 1), Rmtree ''era5_download_k3v9x2ab'']"
  by (simp add: download_eval example_pipeline_def empty_state_def stuck_cleanup_attempt_def)

text \<open>
  Claim C4, amended. A call without the debug flag, with a valid configuration, for which
  \<^verbatim>\<open>mkdtemp\<close> has made the temporary directory: when the client returns normally and
  has left no file or an empty file, the call returns \<open>None\<close>; on every path the client is
  called once and the call of \<^verbatim>\<open>rmtree\<close> on the temporary directory is the last step;
  when \<^verbatim>\<open>rmtree\<close> does not raise, the temporary directory is gone afterwards, and the
  output directory is as it was before the call whenever the attempt produced no file;
  when \<^verbatim>\<open>rmtree\<close> raises, the temporary directory stays.
\<close>

theorem temporary_directory_cleanup:
  assumes "\<not> debug self"
    and "snd (validate_download_config
           (case cfg of None \<Rightarrow> get_default_download_config | Some r \<Rightarrow> heap s r)) = None"
    and "mkdtemp_result a = Inr suffix"
    and "map_of (fs s) (tmp_prefix @ suffix) = None"
  shows "(retrieve_raised a = None \<and> (retrieve_written a = None \<or> retrieve_written a = Some 0) \<longrightarrow>
            fst (download_data_for_date self a d cfg s) = Inr None) \<and>
         trace (snd (download_data_for_date self a d cfg s))
           = trace s @ [Retrieve d, Rmtree (tmp_prefix @ suffix)] \<and>
         (rmtree_raised a = None \<longrightarrow>
            map_of (fs (snd (download_data_for_date self a d cfg s))) (tmp_prefix @ suffix) = None) \<and>
         (rmtree_raised a = None \<and>
          (retrieve_raised a \<noteq> None \<or> retrieve_written a = None \<or> retrieve_written a = Some 0) \<longrightarrow>
            fs (snd (download_data_for_date self a d cfg s)) = fs s) \<and>
         (rmtree_raised a \<noteq> None \<longrightarrow>
            map_of (fs (snd (download_data_for_date self a d cfg s))) (tmp_prefix @ suffix) \<noteq> None)"
proof -
  let ?tmp = "tmp_prefix @ suffix"
  let ?s0 = "case cfg of None \<Rightarrow> s
             | Some r \<Rightarrow> s\<lparr>heap := (heap s)(r := fst (validate_download_config (heap s r)))\<rparr>"
  obtain res s1 where da: "download_attempt self a d ?s0 = (res, Some ?tmp, s1)"
    and tr: "trace s1 = trace s @ [Retrieve d]"
    and ex: "map_of (fs s1) ?tmp \<noteq> None"
    and dl: "download_data_for_date self a d cfg s =
             (case res of Inl e \<Rightarrow> Inr None | Inr r \<Rightarrow> Inr r,
              case rmtree_raised a of
                Some e \<Rightarrow> s1\<lparr>trace := trace s1 @ [Rmtree ?tmp]\<rparr>
              | None \<Rightarrow> s1\<lparr>fs := AList.delete ?tmp (fs s1), trace := trace s1 @ [Rmtree ?tmp]\<rparr>)"
    using download_with_tempdir [OF assms, of d] by blast
  have f0: "map_of (fs ?s0) ?tmp = None" and fs0: "fs ?s0 = fs s"
    using assms(4) by (simp_all split: option.splits)
  have failed: "retrieve_raised a \<noteq> None \<or> retrieve_written a = None \<or> retrieve_written a = Some 0
      \<Longrightarrow> (\<exists>w. fs s1 = fs s @ [(?tmp, Dir w)]) \<and> (retrieve_raised a = None \<longrightarrow> res = Inr None)"
    using download_attempt_failed_fs [OF assms(3) f0, of self d] da fs0 by auto
  have 1: "retrieve_raised a = None \<and> (retrieve_written a = None \<or> retrieve_written a = Some 0) \<longrightarrow>
            fst (download_data_for_date self a d cfg s) = Inr None"
    using failed by (auto simp: dl)
  have 2: "trace (snd (download_data_for_date self a d cfg s)) = trace s @ [Retrieve d, Rmtree ?tmp]"
    by (simp add: dl tr split: option.splits)
  have 3: "rmtree_raised a = None \<longrightarrow>
            map_of (fs (snd (download_data_for_date self a d cfg s))) ?tmp = None"
    by (simp add: dl delete_conv')
  have 4: "rmtree_raised a = None \<and>
          (retrieve_raised a \<noteq> None \<or> retrieve_written a = None \<or> retrieve_written a = Some 0) \<longrightarrow>
            fs (snd (download_data_for_date self a d cfg s)) = fs s"
  proof
    assume h: "rmtree_raised a = None \<and>
          (retrieve_raised a \<noteq> None \<or> retrieve_written a = None \<or> retrieve_written a = Some 0)"
    then obtain w where "fs s1 = fs s @ [(?tmp, Dir w)]" using failed by blast
    then show "fs (snd (download_data_for_date self a d cfg s)) = fs s"
      using h by (simp add: dl delete_append_fresh [OF assms(4)])
  qed
  have 5: "rmtree_raised a \<noteq> None \<longrightarrow>
            map_of (fs (snd (download_data_for_date self a d cfg s))) ?tmp \<noteq> None"
    using ex by (auto simp: dl)
  show ?thesis using 1 2 3 4 5 by blast
qed

theorem temporary_directory_cleanup_witness:
  "fst (download_data_for_date example_pipeline empty_file_attempt (2024, 12, 1) None empty_state)
     = Inr None \<and>
   trace (snd (download_data_for_date example_pipeline empty_file_attempt (2024, 12, 1) None
                 empty_state))
     = [Retrieve (2024, 12, 1), Rmtree ''era5_download_k3v9x2ab''] \<and>
   fs (snd (download_data_for_date example_pipeline empty_file_attempt (2024, 12, 1) None
              empty_state)) = []"
proof -
  have nd: "\<not> debug example_pipeline" by (simp add: example_pipeline_def)
  have v: "snd (validate_download_config
           (case None :: nat option of None \<Rightarrow> get_default_download_config
            | Some r \<Rightarrow> heap empty_state r)) = None"
    by (simp add: validate_default)
  have m: "mkdtemp_result empty_file_attempt = Inr ''k3v9x2ab''"
    by (simp add: empty_file_attempt_def)
  have f: "map_of (fs empty_state) (tmp_prefix @ ''k3v9x2ab'') = None"
    by (simp add: empty_state_def)
  have a: "retrieve_raised empty_file_attempt = None" "retrieve_written empty_file_attempt = Some 0"
    "rmtree_raised empty_file_attempt = None"
    by (simp_all add: empty_file_attempt_def)
  note t = temporary_directory_cleanup [OF nd v m f, of "(2024, 12, 1)"]
  have 1: "fst (download_data_for_date example_pipeline empty_file_attempt (2024, 12, 1) None
                  empty_state) = Inr None"
    using conjunct1 [OF t] a by blast
  have 2: "trace (snd (download_data_for_date example_pipeline empty_file_attempt (2024, 12, 1)
                  None empty_state))
     = [Retrieve (2024, 12, 1), Rmtree ''era5_download_k3v9x2ab'']"
    using conjunct1 [OF conjunct2 [OF t]] by (simp add: empty_state_def tmp_prefix_def)
  have 3: "fs (snd (download_data_for_date example_pipeline empty_file_attempt (2024, 12, 1) None
              empty_state)) = fs empty_state"
    using conjunct1 [OF conjunct2 [OF conjunct2 [OF conjunct2 [OF t]]]] a by blast
  show ?thesis using 1 2 3 by (simp add: empty_state_def)
qed

text \<open>
  Claim C5, as stated, fails in two ways. First, when a download of the first run fails:
  the client raises during the first run for 2024-12-01 (\<open>failing_attempt\<close>), the run
  leaves the output directory empty and has called the client once; the second run, with
  redownload disabled, finds no file for the date, calls the client again, and this time a
  file appears in the directory. Second, when the first run succeeds for a date whose year
  is below 1000: the file is named with the unpadded year, \<open>999-01-01.nc\<close>, the listing
  does not read a date from that name, and the second run calls the client for the date
  again.
\<close>

theorem second_run_retries_failed_date:
  "\<not> redownload example_pipeline \<and>
   fs (snd (process_and_archive_daily_data example_pipeline (\<lambda>d. failing_attempt) example_now
          None None (Some (2024, 12, 1)) empty_state)) = [] \<and>
   retrieve_calls (trace (snd (process_and_archive_daily_data example_pipeline
      (\<lambda>d. failing_attempt) example_now None None (Some (2024, 12, 1)) empty_state)))
     = [Retrieve (2024, 12, 1)] \<and>
   fs (snd (process_and_archive_daily_data example_pipeline (\<lambda>d. good_attempt) example_now
          None None (Some (2024, 12, 1))
          (snd (process_and_archive_daily_data example_pipeline (\<lambda>d. failing_attempt)
                  example_now None None (Some (2024, 12, 1)) empty_state))))
     = [(''2024-12-01.nc'', File 1048576)] \<and>
   retrieve_calls (trace (snd (process_and_archive_daily_data example_pipeline
      (\<lambda>d. good_attempt) example_now None None (Some (2024, 12, 1))
      (snd (process_and_archive_daily_data example_pipeline (\<lambda>d. failing_attempt)
              example_now None None (Some (2024, 12, 1)) empty_state)))))
     = [Retrieve (2024, 12, 1), Retrieve (2024, 12, 1)] \<and>
   fs (snd (process_and_archive_daily_data example_pipeline (\<lambda>d. good_attempt) example_now
          None None (Some (999, 1, 1)) empty_state))
     = [(''999-01-01.nc'', File 1048576)] \<and>
   retrieve_calls (trace (snd (process_and_archive_daily_data example_pipeline
      (\<lambda>d. good_attempt) example_now None None (Some (999, 1, 1)) empty_state)))
     = [Retrieve (999, 1, 1)] \<and>
   retrieve_calls (trace (snd (process_and_archive_daily_data example_pipeline
      (\<lambda>d. good_attempt) example_now None None (Some (999, 1, 1))
      (snd (process_and_archive_daily_data example_pipeline (\<lambda>d. good_attempt)
              example_now None None (Some (999, 1, 1)) empty_state)))))
     = [Retrieve (999, 1, 1), Retrieve (999, 1, 1)]"
proof -
  have a: "snd (process_and_archive_daily_data example_pipeline (\<lambda>d. good_attempt) example_now
          None None (Some (999, 1, 1)) empty_state)
     = \<lparr>fs = [(''999-01-01.nc'', File 1048576)],
        trace = [Retrieve (999, 1, 1), Rmtree ''era5_download_k3v9x2ab'',
                 Processed (999, 1, 1), Archived (999, 1, 1)],
        heap = (\<lambda>r. Map.empty)\<rparr>"
    by (simp add: run_eval date_eval download_eval example_pipeline_def empty_state_def
        good_attempt_def example_now_def del: One_nat_def)
  have b: "retrieve_calls (trace (snd (process_and_archive_daily_data example_pipeline
      (\<lambda>d. good_attempt) example_now None None (Some (999, 1, 1))
      (snd (process_and_archive_daily_data example_pipeline (\<lambda>d. good_attempt)
              example_now None None (Some (999, 1, 1)) empty_state)))))
     = [Retrieve (999, 1, 1), Retrieve (999, 1, 1)]"
    unfolding a
    by (simp add: run_eval date_eval download_eval example_pipeline_def
        good_attempt_def example_now_def retrieve_calls_def del: One_nat_def)
  have c: "\<not> redownload example_pipeline \<and>
   fs (snd (process_and_archive_daily_data example_pipeline (\<lambda>d. failing_attempt) example_now
          None None (Some (2024, 12, 1)) empty_state)) = [] \<and>
   retrieve_calls (trace (snd (process_and_archive_daily_data example_pipeline
      (\<lambda>d. failing_attempt) example_now None None (Some (2024, 12, 1)) empty_state)))
     = [Retrieve (2024, 12, 1)] \<and>
   fs (snd (process_and_archive_daily_data example_pipeline (\<lambda>d. good_attempt) example_now
          None None (Some (2024, 12, 1))
          (snd (process_and_archive_daily_data example_pipeline (\<lambda>d. failing_attempt)
                  example_now None None (Some (2024, 12, 1)) empty_state))))
     = [(''2024-12-01.nc'', File 1048576)] \<and>
   retrieve_calls (trace (snd (process_and_archive_daily_data example_pipeline
      (\<lambda>d. good_attempt) example_now None None (Some (2024, 12, 1))
      (snd (process_and_archive_daily_data example_pipeline (\<lambda>d. failing_attempt)
              example_now None None (Some (2024, 12, 1)) empty_state)))))
     = [Retrieve (2024, 12, 1), Retrieve (2024, 12, 1)]"
    unfolding first_run_failing
    by (simp add: run_eval date_eval download_eval example_pipeline_def empty_state_def
        good_attempt_def example_now_def retrieve_calls_def del: One_nat_def)
  have d: "fs (snd (process_and_archive_daily_data example_pipeline (\<lambda>d. good_attempt) example_now
          None None (Some (999, 1, 1)) empty_state))
     = [(''999-01-01.nc'', File 1048576)] \<and>
   retrieve_calls (trace (snd (process_and_archive_daily_data example_pipeline
      (\<lambda>d. good_attempt) example_now None None (Some (999, 1, 1)) empty_state)))
     = [Retrieve (999, 1, 1)]"
    unfolding a by (simp add: retrieve_calls_def)
  show ?thesis using b c d by blast
qed

text \<open>
  Claim C5, amended. Redownload is disabled and both runs resolve their arguments to the
  same range of dates. A date is present when the output directory holds a regular file
  whose name up to the first dot parses as YYYY-MM-DD to that date. (1) When every
  calendar date of the range is present, the run leaves the directory as it is and calls
  the client for no date; all it does is print that each date is skipped. (2) Outside
  debug mode, when the range starts in the year 1000 or later and the download of every
  date of the range that is not yet present succeeds and is cleaned up (the temporary
  directory is created under a fresh name, the client writes a non-empty file and does not
  raise, the move and the removal do not raise, and no directory stands under the name of
  the output file), every date of the range is present after the first run, and a second
  run in succession, whatever the client would do, calls the client for no date and leaves
  the directory as the first run left it. (3) In debug mode neither run calls the client
  or changes the directory. (4) A regular file named by the date with the suffix
  \<open>.nc\<close>, for a valid date of the year 1000 or later, makes that date present.
\<close>

theorem run_without_effect_when_all_present:
  assumes "\<not> redownload self"
    and "valid_date start"
    and "get_start_and_end_dates now sd ed fd = Inr (Some (start, end_d))"
    and "get_start_and_end_dates now' sd ed fd = Inr (Some (start, end_d))"
    and "sd \<noteq> None \<or> ed \<noteq> None \<or> fd \<noteq> None"
    and "\<not> (ed \<noteq> None \<and> fd \<noteq> None)"
  shows "((\<forall>d. valid_date d \<and> start \<le> d \<and> d \<le> end_d \<longrightarrow> present (fs s) d) \<longrightarrow>
            snd (process_and_archive_daily_data self env now sd ed fd s)
              = s\<lparr>trace := trace s @ map Skipped (date_range start end_d)\<rparr> \<and>
            fs (snd (process_and_archive_daily_data self env now sd ed fd s)) = fs s \<and>
            retrieve_calls (trace (snd (process_and_archive_daily_data self env now sd ed fd s)))
              = retrieve_calls (trace s)) \<and>
         (\<not> debug self \<and> 1000 \<le> fst start \<and>
          (\<forall>d. valid_date d \<and> start \<le> d \<and> d \<le> end_d \<and> \<not> present (fs s) d \<longrightarrow>
                 clean_success (env d) (fs s) d) \<longrightarrow>
            (\<forall>d. valid_date d \<and> start \<le> d \<and> d \<le> end_d \<longrightarrow>
                 present (fs (snd (process_and_archive_daily_data self env now sd ed fd s))) d) \<and>
            fs (snd (process_and_archive_daily_data self env' now' sd ed fd
                       (snd (process_and_archive_daily_data self env now sd ed fd s))))
              = fs (snd (process_and_archive_daily_data self env now sd ed fd s)) \<and>
            retrieve_calls (trace (snd (process_and_archive_daily_data self env' now' sd ed fd
                       (snd (process_and_archive_daily_data self env now sd ed fd s)))))
              = retrieve_calls (trace (snd (process_and_archive_daily_data self env now sd ed fd s)))) \<and>
         (debug self \<longrightarrow>
            fs (snd (process_and_archive_daily_data self env' now' sd ed fd
                       (snd (process_and_archive_daily_data self env now sd ed fd s))))
              = fs s \<and>
            retrieve_calls (trace (snd (process_and_archive_daily_data self env' now' sd ed fd
                       (snd (process_and_archive_daily_data self env now sd ed fd s)))))
              = retrieve_calls (trace s)) \<and>
         (valid_date d \<and> 1000 \<le> fst d \<and> map_of dir (strftime_ymd d @ ''.nc'') = Some (File n) \<longrightarrow>
            present dir d)"
proof -
  let ?s1 = "snd (process_and_archive_daily_data self env now sd ed fd s)"
  let ?s2 = "snd (process_and_archive_daily_data self env' now' sd ed fd ?s1)"
  have noop: "snd (process_and_archive_daily_data self e n sd ed fd t)
                = t\<lparr>trace := trace t @ map Skipped (date_range start end_d)\<rparr> \<and>
              fs (snd (process_and_archive_daily_data self e n sd ed fd t)) = fs t \<and>
              retrieve_calls (trace (snd (process_and_archive_daily_data self e n sd ed fd t)))
                = retrieve_calls (trace t)"
    if r: "get_start_and_end_dates n sd ed fd = Inr (Some (start, end_d))"
      and p: "\<forall>d. valid_date d \<and> start \<le> d \<and> d \<le> end_d \<longrightarrow> present (fs t) d"
    for e n t
  proof -
    have "snd (process_and_archive_daily_data self e n sd ed fd t)
            = t\<lparr>trace := trace t @ map Skipped (date_range start end_d)\<rparr>"
      by (rule run_all_present [OF assms(1,2) r assms(5,6) p])
    then show ?thesis
      by (simp add: retrieve_calls_append retrieve_calls_Skipped)
  qed
  have A: "(\<forall>d. valid_date d \<and> start \<le> d \<and> d \<le> end_d \<longrightarrow> present (fs s) d) \<longrightarrow>
            snd (process_and_archive_daily_data self env now sd ed fd s)
              = s\<lparr>trace := trace s @ map Skipped (date_range start end_d)\<rparr> \<and>
            fs ?s1 = fs s \<and> retrieve_calls (trace ?s1) = retrieve_calls (trace s)"
    using noop [OF assms(3)] by blast
  have B: "(\<forall>d. valid_date d \<and> start \<le> d \<and> d \<le> end_d \<longrightarrow> present (fs ?s1) d) \<and>
           fs ?s2 = fs ?s1 \<and> retrieve_calls (trace ?s2) = retrieve_calls (trace ?s1)"
    if h: "\<not> debug self \<and> 1000 \<le> fst start \<and>
          (\<forall>d. valid_date d \<and> start \<le> d \<and> d \<le> end_d \<and> \<not> present (fs s) d \<longrightarrow>
                 clean_success (env d) (fs s) d)"
  proof -
    have nd: "\<not> debug self" and y: "1000 \<le> fst start"
      and cs: "\<forall>d. valid_date d \<and> start \<le> d \<and> d \<le> end_d \<and> \<not> present (fs s) d \<longrightarrow>
                 clean_success (env d) (fs s) d"
      using h by blast+
    have p1: "\<forall>d. valid_date d \<and> start \<le> d \<and> d \<le> end_d \<longrightarrow> present (fs ?s1) d"
      by (rule first_run_makes_present [OF assms(1) nd assms(2) y assms(3,5,6) cs])
    show ?thesis
      using p1 noop [OF assms(4) p1] by blast
  qed
  have C: "fs ?s2 = fs s \<and> retrieve_calls (trace ?s2) = retrieve_calls (trace s)"
    if dbg: "debug self"
    using run_debug_fs [OF dbg, of env' now' sd ed fd ?s1] run_debug_fs [OF dbg, of env now sd ed fd s]
    by simp
  have D: "valid_date d \<and> 1000 \<le> fst d \<and> map_of dir (strftime_ymd d @ ''.nc'') = Some (File n) \<longrightarrow>
            present dir d"
    using present_output_file by blast
  show ?thesis
    using A B C D by blast
qed

theorem run_without_effect_when_all_present_witness:
  "fs (snd (process_and_archive_daily_data example_pipeline (\<lambda>d. failing_attempt) example_now
          (Some (2024, 12, 1)) (Some (2024, 12, 2)) None
          (snd (process_and_archive_daily_data example_pipeline (\<lambda>d. good_attempt) example_now
                  (Some (2024, 12, 1)) (Some (2024, 12, 2)) None empty_state))))
     = [(''2024-12-01.nc'', File 1048576), (''2024-12-02.nc'', File 1048576)] \<and>
   retrieve_calls (trace (snd (process_and_archive_daily_data example_pipeline
      (\<lambda>d. failing_attempt) example_now (Some (2024, 12, 1)) (Some (2024, 12, 2)) None
      (snd (process_and_archive_daily_data example_pipeline (\<lambda>d. good_attempt) example_now
              (Some (2024, 12, 1)) (Some (2024, 12, 2)) None empty_state)))))
     = [Retrieve (2024, 12, 1), Retrieve (2024, 12, 2)] \<and>
   present (fs (snd (process_and_archive_daily_data example_pipeline (\<lambda>d. good_attempt)
      example_now (Some (2024, 12, 1)) (Some (2024, 12, 2)) None empty_state))) (2024, 12, 2) \<and>
   trace (snd (process_and_archive_daily_data example_pipeline (\<lambda>d. failing_attempt) example_now
          (Some (2024, 12, 1)) (Some (2024, 12, 2)) None
          \<lparr>fs = [(''2024-12-01.nc'', File 7), (''2024-12-02.grib'', File 0)], trace = [],
            heap = (\<lambda>r. Map.empty)\<rparr>))
     = [Skipped (2024, 12, 1), Skipped (2024, 12, 2)] \<and>
   fs (snd (process_and_archive_daily_data example_pipeline (\<lambda>d. failing_attempt) example_now
          (Some (2024, 12, 1)) (Some (2024, 12, 2)) None
          \<lparr>fs = [(''2024-12-01.nc'', File 7), (''2024-12-02.grib'', File 0)], trace = [],
            heap = (\<lambda>r. Map.empty)\<rparr>))
     = [(''2024-12-01.nc'', File 7), (''2024-12-02.grib'', File 0)] \<and>
   fs (snd (process_and_archive_daily_data (example_pipeline\<lparr>debug := True\<rparr>)
          (\<lambda>d. good_attempt) example_now (Some (2024, 12, 1)) (Some (2024, 12, 2)) None
          (snd (process_and_archive_daily_data (example_pipeline\<lparr>debug := True\<rparr>)
                  (\<lambda>d. good_attempt) example_now (Some (2024, 12, 1)) (Some (2024, 12, 2)) None
                  empty_state)))) = [] \<and>
   present [(''2024-12-01.nc'', File 7)] (2024, 12, 1)"
proof -
  let ?s1 = "snd (process_and_archive_daily_data example_pipeline (\<lambda>d. good_attempt) example_now
                  (Some (2024, 12, 1)) (Some (2024, 12, 2)) None empty_state)"
  let ?t = "\<lparr>fs = [(''2024-12-01.nc'', File 7), (''2024-12-02.grib'', File 0)], trace = [],
            heap = (\<lambda>r. Map.empty)\<rparr> :: state"
  let ?dbg = "example_pipeline\<lparr>debug := True\<rparr>"
  have nr: "\<not> redownload example_pipeline" by (simp add: example_pipeline_def)
  have nr': "\<not> redownload ?dbg" by (simp add: example_pipeline_def)
  have p5: "Some (2024, 12, 1) \<noteq> None \<or> Some (2024, 12, 2) \<noteq> None \<or> (None :: date option) \<noteq> None"
    by simp
  have p6: "\<not> (Some (2024, 12, 2) \<noteq> None \<and> (None :: date option) \<noteq> None)"
    by simp
  have rng: "valid_date d \<and> (2024, 12, 1) \<le> d \<and> d \<le> (2024, 12, 2)
               \<longleftrightarrow> d = (2024, 12, 1) \<or> d = (2024, 12, 2)" for d
  proof -
    have "{d. valid_date d \<and> (2024, 12, 1) \<le> d \<and> d \<le> (2024, 12, 2)}
            = set (date_range (2024, 12, 1) (2024, 12, 2))"
      by (rule date_range_set [OF valid_2024_12_01, symmetric])
    then show ?thesis unfolding date_range_example_two by auto
  qed
  note t1 = run_without_effect_when_all_present [OF nr valid_2024_12_01 example_resolution_two
      example_resolution_two p5 p6, of empty_state "\<lambda>d. good_attempt" "\<lambda>d. failing_attempt"]
  have h1: "\<not> debug example_pipeline \<and> 1000 \<le> fst (2024 :: nat, 12 :: nat, 1 :: nat) \<and>
          (\<forall>d. valid_date d \<and> (2024, 12, 1) \<le> d \<and> d \<le> (2024, 12, 2) \<and>
                \<not> present (fs empty_state) d \<longrightarrow> clean_success good_attempt (fs empty_state) d)"
    by (simp add: example_pipeline_def empty_state_def good_attempt_clean)
  have b: "(\<forall>d. valid_date d \<and> (2024, 12, 1) \<le> d \<and> d \<le> (2024, 12, 2) \<longrightarrow> present (fs ?s1) d) \<and>
     fs (snd (process_and_archive_daily_data example_pipeline (\<lambda>d. failing_attempt) example_now
          (Some (2024, 12, 1)) (Some (2024, 12, 2)) None ?s1)) = fs ?s1 \<and>
     retrieve_calls (trace (snd (process_and_archive_daily_data example_pipeline
        (\<lambda>d. failing_attempt) example_now (Some (2024, 12, 1)) (Some (2024, 12, 2)) None ?s1)))
       = retrieve_calls (trace ?s1)"
    using conjunct1 [OF conjunct2 [OF t1]] h1 by blast
  have b1: "present (fs ?s1) (2024, 12, 2)"
    using conjunct1 [OF b] rng by blast
  note t2 = run_without_effect_when_all_present [OF nr valid_2024_12_01 example_resolution_two
      example_resolution_two p5 p6, of ?t "\<lambda>d. failing_attempt"]
  have h2: "\<forall>d. valid_date d \<and> (2024, 12, 1) \<le> d \<and> d \<le> (2024, 12, 2) \<longrightarrow> present (fs ?t) d"
    unfolding rng
    by (simp add: present_def download_eval date_eval del: One_nat_def)
  have a: "snd (process_and_archive_daily_data example_pipeline (\<lambda>d. failing_attempt) example_now
          (Some (2024, 12, 1)) (Some (2024, 12, 2)) None ?t)
        = ?t\<lparr>trace := trace ?t @ map Skipped (date_range (2024, 12, 1) (2024, 12, 2))\<rparr>"
    using conjunct1 [OF t2] h2 by blast
  note t3 = run_without_effect_when_all_present [OF nr' valid_2024_12_01 example_resolution_two
      example_resolution_two p5 p6, of empty_state "\<lambda>d. good_attempt" "\<lambda>d. good_attempt"]
  have c: "fs (snd (process_and_archive_daily_data ?dbg
          (\<lambda>d. good_attempt) example_now (Some (2024, 12, 1)) (Some (2024, 12, 2)) None
          (snd (process_and_archive_daily_data ?dbg
                  (\<lambda>d. good_attempt) example_now (Some (2024, 12, 1)) (Some (2024, 12, 2)) None
                  empty_state)))) = fs empty_state"
    using conjunct1 [OF conjunct2 [OF conjunct2 [OF t3]]] by simp
  have d: "present [(''2024-12-01.nc'', File 7)] (2024, 12, 1)"
  proof -
    have m: "map_of [(''2024-12-01.nc'', File 7)] (strftime_ymd (2024, 12, 1) @ ''.nc'')
               = Some (File 7)"
      by (simp only: strftime_2024_12_01) simp
    have y: "1000 \<le> fst (2024 :: nat, 12 :: nat, 1 :: nat)" by simp
    show ?thesis
      using conjunct2 [OF conjunct2 [OF conjunct2 [OF t1]], of "(2024, 12, 1)"
          "[(''2024-12-01.nc'', File 7)]" 7] valid_2024_12_01 y m
      by blast
  qed
  have 1: "fs (snd (process_and_archive_daily_data example_pipeline (\<lambda>d. failing_attempt)
          example_now (Some (2024, 12, 1)) (Some (2024, 12, 2)) None ?s1))
       = [(''2024-12-01.nc'', File 1048576), (''2024-12-02.nc'', File 1048576)]"
    using conjunct1 [OF conjunct2 [OF b]] by (simp only: first_run_good)
  have 2: "retrieve_calls (trace (snd (process_and_archive_daily_data example_pipeline
        (\<lambda>d. failing_attempt) example_now (Some (2024, 12, 1)) (Some (2024, 12, 2)) None ?s1)))
       = [Retrieve (2024, 12, 1), Retrieve (2024, 12, 2)]"
    using conjunct2 [OF conjunct2 [OF b]] by (simp only: first_run_good_calls)
  have 4: "trace (snd (process_and_archive_daily_data example_pipeline (\<lambda>d. failing_attempt)
          example_now (Some (2024, 12, 1)) (Some (2024, 12, 2)) None ?t))
       = [Skipped (2024, 12, 1), Skipped (2024, 12, 2)]"
    unfolding a date_range_example_two by simp
  have 5: "fs (snd (process_and_archive_daily_data example_pipeline (\<lambda>d. failing_attempt)
          example_now (Some (2024, 12, 1)) (Some (2024, 12, 2)) None ?t))
       = [(''2024-12-01.nc'', File 7), (''2024-12-02.grib'', File 0)]"
    unfolding a by simp
  have 6: "fs (snd (process_and_archive_daily_data ?dbg
          (\<lambda>d. good_attempt) example_now (Some (2024, 12, 1)) (Some (2024, 12, 2)) None
          (snd (process_and_archive_daily_data ?dbg
                  (\<lambda>d. good_attempt) example_now (Some (2024, 12, 1)) (Some (2024, 12, 2)) None
                  empty_state)))) = []"
    unfolding c by (simp add: empty_state_def)
  show ?thesis
    using 1 2 b1 4 5 6 d by blast
qed

text \<open>
  Claim C6 at the call that gives none of the three arguments. The parameter
  \<^verbatim>\<open>start_date\<close> is then bound to its default \<^verbatim>\<open>date(1940, 1, 1)\<close>, the first
  \<^verbatim>\<open>assert\<close> holds and the run goes on, from 1940-01-01 to five days before the date of
  the clock: the call is the call with \<^verbatim>\<open>start_date = date(1940, 1, 1)\<close>, it does not
  end with an \<^verbatim>\<open>AssertionError\<close>, and with the clock at 1940-01-07 and the debug flag
  set it processes and archives 1940-01-01 and 1940-01-02. The message of the assertion
  says that one of the three must be provided. (\<open>run_rejects_iff\<close> is what the two
  assertions do on the values the parameters are bound to.)
\<close>

theorem no_arguments_run_proceeds:
  "call_process_and_archive_daily_data self env now
      \<lparr>start_date_arg = None, end_date_arg = None, fixed_date_arg = None\<rparr> s
     = process_and_archive_daily_data self env now (Some (1940, 1, 1)) None None s \<and>
   \<not> is_assertion_error (fst (call_process_and_archive_daily_data self env now
      \<lparr>start_date_arg = None, end_date_arg = None, fixed_date_arg = None\<rparr> s)) \<and>
   (fst (call_process_and_archive_daily_data (example_pipeline\<lparr>debug := True\<rparr>)
           (\<lambda>d. good_attempt) ((1940, 1, 7), 0)
           \<lparr>start_date_arg = None, end_date_arg = None, fixed_date_arg = None\<rparr> empty_state),
    trace (snd (call_process_and_archive_daily_data (example_pipeline\<lparr>debug := True\<rparr>)
           (\<lambda>d. good_attempt) ((1940, 1, 7), 0)
           \<lparr>start_date_arg = None, end_date_arg = None, fixed_date_arg = None\<rparr> empty_state)))
     = (None, [Processed (1940, 1, 1), Archived (1940, 1, 1),
               Processed (1940, 1, 2), Archived (1940, 1, 2)])"
proof -
  have a: "call_process_and_archive_daily_data self env now
      \<lparr>start_date_arg = None, end_date_arg = None, fixed_date_arg = None\<rparr> s
     = process_and_archive_daily_data self env now (Some (1940, 1, 1)) None None s"
    by (simp add: call_process_and_archive_daily_data_def)
  have b: "\<not> is_assertion_error
      (fst (process_and_archive_daily_data self env now (Some (1940, 1, 1)) None None s))"
    by (simp add: run_rejects_iff)
  have c: "(fst (call_process_and_archive_daily_data (example_pipeline\<lparr>debug := True\<rparr>)
           (\<lambda>d. good_attempt) ((1940, 1, 7), 0)
           \<lparr>start_date_arg = None, end_date_arg = None, fixed_date_arg = None\<rparr> empty_state),
    trace (snd (call_process_and_archive_daily_data (example_pipeline\<lparr>debug := True\<rparr>)
           (\<lambda>d. good_attempt) ((1940, 1, 7), 0)
           \<lparr>start_date_arg = None, end_date_arg = None, fixed_date_arg = None\<rparr> empty_state)))
     = (None, [Processed (1940, 1, 1), Archived (1940, 1, 1),
               Processed (1940, 1, 2), Archived (1940, 1, 2)])"
    by (simp add: run_eval date_eval download_debug example_pipeline_def empty_state_def)
  show ?thesis using a b c by simp
qed

theorem no_arguments_run_proceeds_witness:
  "call_process_and_archive_daily_data example_pipeline (\<lambda>d. good_attempt) example_now
      \<lparr>start_date_arg = None, end_date_arg = None, fixed_date_arg = None\<rparr> empty_state
     = process_and_archive_daily_data example_pipeline (\<lambda>d. good_attempt) example_now
         (Some (1940, 1, 1)) None None empty_state \<and>
   \<not> is_assertion_error (fst (call_process_and_archive_daily_data example_pipeline
      (\<lambda>d. good_attempt) example_now
      \<lparr>start_date_arg = None, end_date_arg = None, fixed_date_arg = None\<rparr> empty_state))"
  using no_arguments_run_proceeds [of example_pipeline "\<lambda>d. good_attempt" example_now empty_state]
  by blast

text \<open>
  Claim C7. With the debug flag set, \<^verbatim>\<open>download_data_for_date\<close> returns \<open>None\<close> and
  leaves the state as it is: no call of the client, no change of the output directory.
  A run in debug mode on an empty output directory leaves the directory empty, calls the
  client for no date, and prints the processing and the archiving line once for each
  date of the range, in order, and nothing else.
\<close>

theorem debug_mode_downloads_nothing:
  assumes "debug self"
  shows "download_data_for_date self a d cfg s = (Inr None, s) \<and>
         (valid_date start \<and>
          get_start_and_end_dates now sd ed fd = Inr (Some (start, end_d)) \<and>
          (sd \<noteq> None \<or> ed \<noteq> None \<or> fd \<noteq> None) \<and> \<not> (ed \<noteq> None \<and> fd \<noteq> None) \<and>
          fs s = [] \<longrightarrow>
            snd (process_and_archive_daily_data self env now sd ed fd s)
              = s\<lparr>trace := trace s @
                    concat (map (\<lambda>d. [Processed d, Archived d]) (date_range start end_d))\<rparr> \<and>
            fs (snd (process_and_archive_daily_data self env now sd ed fd s)) = [] \<and>
            retrieve_calls (trace (snd (process_and_archive_daily_data self env now sd ed fd s)))
              = retrieve_calls (trace s) \<and>
            distinct (date_range start end_d) \<and>
            set (date_range start end_d) = {d. valid_date d \<and> start \<le> d \<and> d \<le> end_d})"
proof (intro conjI impI)
  show "download_data_for_date self a d cfg s = (Inr None, s)"
    by (rule download_debug [OF assms])
next
  assume h: "valid_date start \<and>
          get_start_and_end_dates now sd ed fd = Inr (Some (start, end_d)) \<and>
          (sd \<noteq> None \<or> ed \<noteq> None \<or> fd \<noteq> None) \<and> \<not> (ed \<noteq> None \<and> fd \<noteq> None) \<and>
          fs s = []"
  then have u: "process_and_archive_daily_data self env now sd ed fd s =
           daily_loop self env (get_already_downloaded_dates (fs s)) end_d start s"
    by (intro run_unfold) simp_all
  have al: "get_already_downloaded_dates (fs s) = []"
    using h by (simp add: get_already_downloaded_dates_def List.map_filter_simps)
  show r: "snd (process_and_archive_daily_data self env now sd ed fd s)
              = s\<lparr>trace := trace s @
                    concat (map (\<lambda>d. [Processed d, Archived d]) (date_range start end_d))\<rparr>"
    by (simp add: u al daily_loop_debug_empty [OF assms])
  show "fs (snd (process_and_archive_daily_data self env now sd ed fd s)) = []"
    using h by (simp add: r)
  show "retrieve_calls (trace (snd (process_and_archive_daily_data self env now sd ed fd s)))
              = retrieve_calls (trace s)"
    by (simp add: r retrieve_calls_append retrieve_calls_debug)
  show "distinct (date_range start end_d)" by (rule distinct_date_range)
  show "set (date_range start end_d) = {d. valid_date d \<and> start \<le> d \<and> d \<le> end_d}"
    using h by (intro date_range_set) simp
qed

theorem debug_mode_downloads_nothing_witness:
  "download_data_for_date (example_pipeline\<lparr>debug := True\<rparr>) good_attempt (2024, 12, 1) None
      empty_state = (Inr None, empty_state) \<and>
   trace (snd (process_and_archive_daily_data (example_pipeline\<lparr>debug := True\<rparr>)
       (\<lambda>d. good_attempt) example_now (Some (2024, 12, 1)) (Some (2024, 12, 5)) None empty_state))
     = [Processed (2024, 12, 1), Archived (2024, 12, 1), Processed (2024, 12, 2),
        Archived (2024, 12, 2), Processed (2024, 12, 3), Archived (2024, 12, 3),
        Processed (2024, 12, 4), Archived (2024, 12, 4), Processed (2024, 12, 5),
        Archived (2024, 12, 5)] \<and>
   fs (snd (process_and_archive_daily_data (example_pipeline\<lparr>debug := True\<rparr>)
       (\<lambda>d. good_attempt) example_now (Some (2024, 12, 1)) (Some (2024, 12, 5)) None empty_state))
     = [] \<and>
   retrieve_calls (trace (snd (process_and_archive_daily_data (example_pipeline\<lparr>debug := True\<rparr>)
       (\<lambda>d. good_attempt) example_now (Some (2024, 12, 1)) (Some (2024, 12, 5)) None empty_state)))
     = []"
proof -
  have dbg: "debug (example_pipeline\<lparr>debug := True\<rparr>)" by simp
  have e: "fs empty_state = []" "trace empty_state = []" by (simp_all add: empty_state_def)
  show ?thesis
    using debug_mode_downloads_nothing [OF dbg, of good_attempt "(2024, 12, 1)" None empty_state
        "(2024, 12, 1)" example_now "Some (2024, 12, 1)" "Some (2024, 12, 5)" None "(2024, 12, 5)"
        "\<lambda>d. good_attempt"]
      valid_2024_12_01 example_resolution e
    by (simp add: date_range_example retrieve_calls_def del: One_nat_def)
qed

text \<open>
  Claim C8. Validation fails exactly when one of the required fields \<^verbatim>\<open>variable\<close>,
  \<^verbatim>\<open>pressure_level\<close>, \<^verbatim>\<open>time\<close> is missing or is not a non-empty list, or when the
  area is present, true and not a list of four elements. When the required fields are
  in order and the area is missing or false, validation succeeds and has set the area to
  the global bounding box \<open>[90, -180, -90, 180]\<close>. When validation of the dictionary of
  the caller fails, \<^verbatim>\<open>download_data_for_date\<close> returns \<open>None\<close>, raises nothing and
  leaves the state as it is.
\<close>

theorem validation_rule:
  "(snd (validate_download_config c) \<noteq> None \<longleftrightarrow>
      (\<exists>k \<in> set required_keys. \<not> nonempty_list_field c k) \<or> bad_area c) \<and>
   ((\<forall>k \<in> set required_keys. nonempty_list_field c k) \<and> \<not> truthy (get_area c) \<longrightarrow>
      validate_download_config c = (c(''area'' \<mapsto> global_area), None)) \<and>
   global_area = PList [PInt 90, PInt (- 180), PInt (- 90), PInt 180] \<and>
   (\<not> debug self \<and> snd (validate_download_config (heap s r)) \<noteq> None \<longrightarrow>
      download_data_for_date self a d (Some r) s = (Inr None, s))"
proof (intro conjI impI)
  show "snd (validate_download_config c) \<noteq> None \<longleftrightarrow>
      (\<exists>k \<in> set required_keys. \<not> nonempty_list_field c k) \<or> bad_area c"
    by (simp add: validate_ok_iff)
next
  assume "(\<forall>k \<in> set required_keys. nonempty_list_field c k) \<and> \<not> truthy (get_area c)"
  then show "validate_download_config c = (c(''area'' \<mapsto> global_area), None)"
    by (simp add: validate_fields_ok)
next
  show "global_area = PList [PInt 90, PInt (- 180), PInt (- 90), PInt 180]"
    by (simp add: global_area_def)
next
  assume h: "\<not> debug self \<and> snd (validate_download_config (heap s r)) \<noteq> None"
  then obtain e where e: "snd (validate_download_config (heap s r)) = Some e" by auto
  have "fst (validate_download_config (heap s r)) = heap s r"
    using e by (simp add: validate_result)
  then have v: "validate_download_config (heap s r) = (heap s r, Some e)"
    using e by (cases "validate_download_config (heap s r)") simp
  have "download_data_for_date self a d (Some r) s
          = (Inr None, s\<lparr>heap := (heap s)(r := heap s r)\<rparr>)"
    using h v download_invalid_unfold [where cfg = "Some r" and s = s and self = self
        and ?dict1.0 = "heap s r" and e = e and a = a and d = d]
    by simp
  then show "download_data_for_date self a d (Some r) s = (Inr None, s)" by simp
qed

theorem validation_rule_witness:
  "snd (validate_download_config empty_times_config) \<noteq> None \<and>
   validate_download_config no_area_config = (no_area_config(''area'' \<mapsto> global_area), None) \<and>
   download_data_for_date example_pipeline good_attempt (2024, 12, 1) (Some 0)
       (caller_state empty_times_config)
     = (Inr None, caller_state empty_times_config)"
proof -
  have nd: "\<not> debug example_pipeline" by (simp add: example_pipeline_def)
  have h: "heap (caller_state empty_times_config) 0 = empty_times_config"
    by (simp add: caller_state_def)
  note a = validation_rule [of empty_times_config example_pipeline
      "caller_state empty_times_config" 0 good_attempt "(2024, 12, 1)"]
  note b = validation_rule [of no_area_config example_pipeline
      "caller_state empty_times_config" 0 good_attempt "(2024, 12, 1)"]
  have 1: "snd (validate_download_config empty_times_config) \<noteq> None"
    using conjunct1 [OF a] empty_times_config_fields by blast
  have 2: "validate_download_config no_area_config
             = (no_area_config(''area'' \<mapsto> global_area), None)"
    using conjunct1 [OF conjunct2 [OF b]] no_area_config_fields by blast
  have 3: "download_data_for_date example_pipeline good_attempt (2024, 12, 1) (Some 0)
       (caller_state empty_times_config)
     = (Inr None, caller_state empty_times_config)"
    using conjunct2 [OF conjunct2 [OF conjunct2 [OF a]]] nd 1 unfolding h by blast
  show ?thesis using 1 2 3 by blast
qed

text \<open>
  Claim C9. When \<^verbatim>\<open>start_date\<close> and \<^verbatim>\<open>fixed_date\<close> are both given, the range is
  resolved to \<open>(f, f)\<close>, the assertions do not reject the call, and the run visits
  the date \<open>f\<close> and no other: the start date given has no effect.
\<close>

theorem fixed_date_takes_precedence:
  assumes "sub_days (datetime_date now) 5 = Inr latest" and "valid_date f"
  shows "get_start_and_end_dates now (Some sd) None (Some f) = Inr (Some (f, f)) \<and>
         \<not> is_assertion_error
             (fst (process_and_archive_daily_data self env now (Some sd) None (Some f) s)) \<and>
         visited (trace (snd (process_and_archive_daily_data self env now (Some sd) None (Some f) s)))
           = visited (trace s) @ [f]"
proof -
  have r: "get_start_and_end_dates now (Some sd) None (Some f) = Inr (Some (f, f))"
    using assms(1) by (simp add: get_start_and_end_dates_def)
  have u: "process_and_archive_daily_data self env now (Some sd) None (Some f) s =
           daily_loop self env (get_already_downloaded_dates (fs s)) f f s"
    by (rule run_unfold [OF r]) simp_all
  have "\<not> is_assertion_error (fst (daily_loop self env (get_already_downloaded_dates (fs s)) f f s))"
  proof (cases "add_one_day f")
    case (Inl e)
    then have "e = OverflowError" by (cases f) (auto split: if_splits)
    then show ?thesis using Inl by (auto simp: daily_loop_step)
  next
    case (Inr n)
    have "\<not> n \<le> f" using add_one_day_less [OF Inr] by simp
    then show ?thesis using Inr by (simp add: daily_loop_step daily_loop_done)
  qed
  then show ?thesis
    using r by (simp add: u daily_loop_visited date_range_single)
qed

theorem fixed_date_takes_precedence_witness:
  "get_start_and_end_dates example_now (Some (2024, 12, 1)) None (Some (2024, 12, 3))
     = Inr (Some ((2024, 12, 3), (2024, 12, 3))) \<and>
   \<not> is_assertion_error
     (fst (process_and_archive_daily_data example_pipeline (\<lambda>d. good_attempt) example_now
          (Some (2024, 12, 1)) None (Some (2024, 12, 3)) empty_state)) \<and>
   visited (trace (snd (process_and_archive_daily_data example_pipeline (\<lambda>d. good_attempt)
      example_now (Some (2024, 12, 1)) None (Some (2024, 12, 3)) empty_state)))
     = visited (trace empty_state) @ [(2024, 12, 3)]"
proof -
  have v: "valid_date (2024, 12, 3)" by (simp add: date_eval)
  show ?thesis
    by (rule fixed_date_takes_precedence [OF sub_days_5_example v])
qed

text \<open>
  Claim C10, as stated, fails in two cases in which the area of the dictionary of the
  caller is missing. With the debug flag set the call returns before the validation, and
  with an invalid required field (here an empty list of times) the validation raises
  before it comes to the area: in both cases the dictionary is after the call what it was
  before, without an area.
\<close>

theorem debug_or_invalid_config_is_not_mutated:
  "no_area_config ''area'' = None \<and>
   heap (snd (download_data_for_date (example_pipeline\<lparr>debug := True\<rparr>) good_attempt
                (2024, 12, 1) (Some 0) (caller_state no_area_config))) 0
     = no_area_config \<and>
   no_area_empty_times_config ''area'' = None \<and>
   heap (snd (download_data_for_date example_pipeline good_attempt
                (2024, 12, 1) (Some 0) (caller_state no_area_empty_times_config))) 0
     = no_area_empty_times_config"
proof -
  have 1: "no_area_config ''area'' = None"
    by (simp add: no_area_config_def)
  have 2: "heap (snd (download_data_for_date (example_pipeline\<lparr>debug := True\<rparr>) good_attempt
                (2024, 12, 1) (Some 0) (caller_state no_area_config))) 0 = no_area_config"
    by (simp add: download_debug caller_state_def)
  have 3: "fst (validate_download_config no_area_empty_times_config) = no_area_empty_times_config"
    using no_area_empty_times_config_fields by (intro validate_fields_bad_fst) blast
  have 4: "heap (snd (download_data_for_date example_pipeline good_attempt
                (2024, 12, 1) (Some 0) (caller_state no_area_empty_times_config))) 0
     = no_area_empty_times_config"
    by (simp add: download_heap example_pipeline_def caller_state_def 3)
  show ?thesis using 1 2 3 4 no_area_empty_times_config_fields by blast
qed

text \<open>
  Claim C10, amended. The dictionary of the caller is the object at reference \<open>r\<close> of the
  store. When the debug flag is off, its required fields are in order and its area is
  missing or false, after the call the object holds the global bounding box under
  \<^verbatim>\<open>"area"\<close> and so differs from what it was. When the debug flag is set, or a
  required field is not in order, or the area is true, the call changes no dictionary.
  In every call, every key other than \<^verbatim>\<open>"area"\<close> of every object has the value it
  had, and an object that is not the argument is unchanged.
\<close>

theorem download_mutates_caller_config:
  "(\<not> debug self \<and> (\<forall>k \<in> set required_keys. nonempty_list_field (heap s r) k) \<and>
    \<not> truthy (get_area (heap s r)) \<longrightarrow>
      heap (snd (download_data_for_date self a d (Some r) s)) r
        = (heap s r)(''area'' \<mapsto> global_area) \<and>
      heap (snd (download_data_for_date self a d (Some r) s)) r \<noteq> heap s r) \<and>
   (debug self \<or> \<not> (\<forall>k \<in> set required_keys. nonempty_list_field (heap s r) k) \<or>
    truthy (get_area (heap s r)) \<longrightarrow>
      heap (snd (download_data_for_date self a d (Some r) s)) = heap s) \<and>
   (\<forall>r' k. k \<noteq> ''area'' \<longrightarrow>
      heap (snd (download_data_for_date self a d cfg s)) r' k = heap s r' k) \<and>
   (\<forall>r'. cfg \<noteq> Some r' \<longrightarrow>
      heap (snd (download_data_for_date self a d cfg s)) r' = heap s r')"
proof (intro conjI impI allI)
  assume h: "\<not> debug self \<and> (\<forall>k \<in> set required_keys. nonempty_list_field (heap s r) k) \<and>
    \<not> truthy (get_area (heap s r))"
  then have v: "validate_download_config (heap s r) = ((heap s r)(''area'' \<mapsto> global_area), None)"
    by (simp add: validate_fields_ok)
  show w: "heap (snd (download_data_for_date self a d (Some r) s)) r
        = (heap s r)(''area'' \<mapsto> global_area)"
    using h by (simp add: download_heap v)
  have "heap s r ''area'' \<noteq> Some global_area"
    using h truthy_global_area(1) by (auto simp: get_area_def split: option.splits)
  then have "(heap s r)(''area'' \<mapsto> global_area) \<noteq> heap s r"
    by (metis fun_upd_same)
  then show "heap (snd (download_data_for_date self a d (Some r) s)) r \<noteq> heap s r"
    by (simp add: w)
next
  assume h: "debug self \<or> \<not> (\<forall>k \<in> set required_keys. nonempty_list_field (heap s r) k) \<or>
    truthy (get_area (heap s r))"
  have "\<not> debug self \<Longrightarrow> fst (validate_download_config (heap s r)) = heap s r"
  proof (cases "\<forall>k \<in> set required_keys. nonempty_list_field (heap s r) k")
    case False
    then show ?thesis by (rule validate_fields_bad_fst)
  next
    case True
    assume "\<not> debug self"
    then have "truthy (get_area (heap s r))" using h True by blast
    then show ?thesis by (simp add: validate_result)
  qed
  then show "heap (snd (download_data_for_date self a d (Some r) s)) = heap s"
    by (cases "debug self") (simp_all add: download_heap)
next
  fix r' k
  assume "k \<noteq> ''area''"
  then show "heap (snd (download_data_for_date self a d cfg s)) r' k = heap s r' k"
    by (simp add: download_heap validate_result split: option.splits)
next
  fix r'
  assume "cfg \<noteq> Some r'"
  then show "heap (snd (download_data_for_date self a d cfg s)) r' = heap s r'"
    by (auto simp: download_heap split: option.splits)
qed

theorem download_mutates_caller_config_witness:
  "heap (snd (download_data_for_date example_pipeline good_attempt (2024, 12, 1) (Some 0)
            (caller_state no_area_config))) 0
     = no_area_config(''area'' \<mapsto> global_area) \<and>
   heap (snd (download_data_for_date example_pipeline good_attempt (2024, 12, 1) (Some 0)
            (caller_state no_area_config))) 0
     \<noteq> no_area_config \<and>
   heap (snd (download_data_for_date example_pipeline good_attempt (2024, 12, 1) (Some 0)
            (caller_state no_area_config))) 0 ''time''
     = no_area_config ''time'' \<and>
   heap (snd (download_data_for_date example_pipeline good_attempt (2024, 12, 1) (Some 0)
            (caller_state no_area_config))) 1
     = no_area_config"
proof -
  have nd: "\<not> debug example_pipeline" by (simp add: example_pipeline_def)
  have h: "heap (caller_state no_area_config) = (\<lambda>r. no_area_config)"
    by (simp add: caller_state_def)
  note t = download_mutates_caller_config [of example_pipeline "caller_state no_area_config" 0
      good_attempt "(2024, 12, 1)" "Some 0"]
  have 1: "heap (snd (download_data_for_date example_pipeline good_attempt (2024, 12, 1) (Some 0)
            (caller_state no_area_config))) 0
     = no_area_config(''area'' \<mapsto> global_area) \<and>
   heap (snd (download_data_for_date example_pipeline good_attempt (2024, 12, 1) (Some 0)
            (caller_state no_area_config))) 0
     \<noteq> no_area_config"
    using conjunct1 [OF t] nd no_area_config_fields unfolding h by blast
  have 2: "heap (snd (download_data_for_date example_pipeline good_attempt (2024, 12, 1) (Some 0)
            (caller_state no_area_config))) 0 ''time''
     = no_area_config ''time''"
    using conjunct1 [OF conjunct2 [OF conjunct2 [OF t]]] unfolding h by simp
  have 3: "heap (snd (download_data_for_date example_pipeline good_attempt (2024, 12, 1) (Some 0)
            (caller_state no_area_config))) 1
     = no_area_config"
    using conjunct2 [OF conjunct2 [OF conjunct2 [OF t]]] unfolding h by simp
  show ?thesis using 1 2 3 by blast
qed

end
